theory Spec2Isabelle
  imports Complex_Main "HOL-Library.AList" "HOL-Library.Sublist"
begin

section \<open>Roster selector (CoachMultiSelector)\<close>

text \<open>
  The selector is a controlled component: it owns no state, it receives the current
  selection \<open>selectedIds\<close> and reports every change through \<open>onSelectionChange\<close>.
  The count properties \<open>minCount\<close> and \<open>maxCount\<close> are optional and default to 2 and 5;
  they are counts, modelled as integers.
\<close>

record CoachMultiSelectorProps =
  selectedIds :: "string list"
  minCount :: "int option"
  maxCount :: "int option"

definition minCount_of :: "CoachMultiSelectorProps \<Rightarrow> int" where
  "minCount_of p = (case minCount p of None \<Rightarrow> 2 | Some n \<Rightarrow> n)"

definition maxCount_of :: "CoachMultiSelectorProps \<Rightarrow> int" where
  "maxCount_of p = (case maxCount p of None \<Rightarrow> 5 | Some n \<Rightarrow> n)"

text \<open>
  \<open>handleToggle\<close>: the result is the argument handed to \<open>onSelectionChange\<close>, or
  \<open>None\<close> when the callback is not called (the selection is full).
\<close>

definition handleToggle :: "CoachMultiSelectorProps \<Rightarrow> string \<Rightarrow> string list option" where
  "handleToggle p coachId =
     (if coachId \<in> set (selectedIds p)
      then Some (filter (\<lambda>i. i \<noteq> coachId) (selectedIds p))
      else if int (length (selectedIds p)) < maxCount_of p
           then Some (selectedIds p @ [coachId])
           else None)"

definition isValid :: "CoachMultiSelectorProps \<Rightarrow> bool" where
  "isValid p \<longleftrightarrow>
     int (length (selectedIds p)) \<ge> minCount_of p \<and> int (length (selectedIds p)) \<le> maxCount_of p"

text \<open>
  The owner of the selection adopts what \<open>onSelectionChange\<close> reports; a toggle that
  does not call it leaves the selection as it is.
\<close>

definition toggle :: "CoachMultiSelectorProps \<Rightarrow> string \<Rightarrow> CoachMultiSelectorProps" where
  "toggle p coachId =
     (case handleToggle p coachId of None \<Rightarrow> p | Some ids \<Rightarrow> p\<lparr>selectedIds := ids\<rparr>)"

fun toggles :: "CoachMultiSelectorProps \<Rightarrow> string list \<Rightarrow> CoachMultiSelectorProps" where
  "toggles p [] = p"
| "toggles p (c # cs) = toggles (toggle p c) cs"

section \<open>Roundtable chat: data\<close>

text \<open>
  The data of \<open>RoundtableChat.tsx\<close>. Record fields carry a short prefix because field
  names are global; apart from that they are the names of the source. The types
  \<open>ModelConfig\<close>, \<open>CoachBrief\<close>, \<open>RoundtableSession\<close>, \<open>RoundtableMessage\<close>,
  \<open>RoundtableEvent\<close> and \<open>StreamingCoachResponse\<close> are imported by the component; they are
  declared here with the fields the component reads and writes (the event \<open>done\<close> is
  \<open>done_ev\<close>, as \<open>done\<close> is a keyword). A JavaScript value that
  may be \<open>undefined\<close> or \<open>null\<close> is an \<open>option\<close>.
\<close>

record ModelConfig =
  mc_configId :: "string option"
  mc_provider :: string
  mc_model :: string
  mc_temperature :: real
  mc_maxTokens :: int

datatype KbTiming = kb_off | kb_message | kb_round | kb_coach | kb_moderator

datatype DiscussionMode = free | moderated

datatype DebateStyle = converge | clash

record CoachBrief =
  cb_id :: string
  cb_name :: string
  cb_avatar_url :: "string option"

record RoundtableSession =
  rs_id :: "string option"
  rs_discussion_mode :: DiscussionMode
  rs_coaches :: "CoachBrief list option"
  rs_moderator :: "CoachBrief option"
  rs_is_active :: bool

record ChatAttachment =
  ca_id :: string
  ca_type :: string
  ca_fileName :: string
  ca_url :: string
  ca_extractedText :: "string option"
  ca_transcription :: "string option"

record ApiMessageAttachment =
  aa_id :: string
  aa_type :: string
  aa_fileName :: string
  aa_url :: string
  aa_base64Data :: "string option"
  aa_extractedText :: "string option"
  aa_transcription :: "string option"

datatype Role = user | assistant

record RoundtableMessage =
  rm_id :: string
  rm_session_id :: "string option"
  rm_coach_id :: "string option"
  rm_coach :: "CoachBrief option"
  rm_role :: Role
  rm_content :: string
  rm_attachments :: "ChatAttachment list option"
  rm_message_type :: string
  rm_turn_number :: "nat option"
  rm_created_at :: string

text \<open>
  A streaming entry. Every field but \<open>content\<close> is optional: a \<open>content\<close> event for a
  coach without an entry spreads \<open>undefined\<close> and creates an object that has a
  \<open>content\<close> only.
\<close>

record StreamingCoachResponse =
  sr_coach_id :: "string option"
  sr_coach_name :: "string option"
  sr_coach_avatar :: "string option"
  sr_content :: string
  sr_isStreaming :: "bool option"
  sr_message_type :: "string option"

datatype RoundtableEvent =
    round_start nat
  | coach_start string string "string option"
  | moderator_start string string "string option" string
  | content string string
  | coach_end string
  | moderator_end string string
  | round_end nat
  | done_ev
  | error "string option" string

text \<open>
  The properties of the component and its React state. \<open>streamingResponses\<close> is a
  JavaScript object used as a dictionary: an association list in insertion order, where
  \<open>AList.update\<close> is the spread \<open>{...prev, [k]: v}\<close> (an existing key keeps its place,
  a new key goes last) and \<open>AList.delete\<close> is the rest pattern that drops a key.
\<close>

record RoundtableChatProps =
  session :: RoundtableSession
  modelConfig :: ModelConfig
  kbTiming :: KbTiming
  kbTopK :: int
  kbMaxCandidates :: int

record ChatState =
  messages :: "RoundtableMessage list"
  input :: string
  isLoading :: bool
  currentRound :: nat
  maxRounds :: int
  debateStyle :: DebateStyle
  streamingResponses :: "(string \<times> StreamingCoachResponse) list"
  currentCoachId :: "string option"
  overrideEnabled :: bool
  overrideModelConfig :: ModelConfig
  overrideKbTiming :: KbTiming
  overrideKbTopK :: int
  overrideKbMaxCandidates :: int

text \<open>
  What \<open>Date.now()\<close> (in decimal) and \<open>new Date().toISOString()\<close> return at one place
  of the code; the clock is an input of the model.
\<close>

record Clock =
  now_ms :: string
  now_iso :: string

section \<open>Roundtable chat: initial state and effects\<close>

text \<open>
  The initial values of the state (\<open>useState\<close>), and the three effects that run when the
  component mounts and when the session or the session settings change: the round count
  and the debate style are reset for the session, and the override is reset to the
  settings of the session and switched off.
\<close>

definition initial_state :: "RoundtableChatProps \<Rightarrow> RoundtableMessage list \<Rightarrow> ChatState" where
  "initial_state props initialMessages =
     \<lparr>messages = initialMessages, input = [], isLoading = False, currentRound = 0,
      maxRounds = (if rs_discussion_mode (session props) = free then 2 else 1),
      debateStyle = converge, streamingResponses = [], currentCoachId = None,
      overrideEnabled = False, overrideModelConfig = modelConfig props,
      overrideKbTiming = kbTiming props, overrideKbTopK = kbTopK props,
      overrideKbMaxCandidates = kbMaxCandidates props\<rparr>"

definition session_effects :: "RoundtableChatProps \<Rightarrow> ChatState \<Rightarrow> ChatState" where
  "session_effects props st =
     st\<lparr>maxRounds := (if rs_discussion_mode (session props) = free then 2 else 1),
        debateStyle := converge,
        overrideModelConfig := modelConfig props,
        overrideKbTiming := kbTiming props,
        overrideKbTopK := kbTopK props,
        overrideKbMaxCandidates := kbMaxCandidates props,
        overrideEnabled := False\<rparr>"

section \<open>Roundtable chat: the stream event handler\<close>

text \<open>
  \<open>coachesMap\<close>: every coach of the session is set under its id, then the moderator.
\<close>

definition coachesMap :: "RoundtableSession \<Rightarrow> (string \<rightharpoonup> CoachBrief)" where
  "coachesMap s =
     (let m = foldl (\<lambda>m c. m(cb_id c \<mapsto> c)) Map.empty
                (case rs_coaches s of None \<Rightarrow> [] | Some cs \<Rightarrow> cs)
      in case rs_moderator s of None \<Rightarrow> m | Some md \<Rightarrow> m(cb_id md \<mapsto> md))"

text \<open>\<open>a || b\<close> on strings that may be undefined: the empty string is falsy.\<close>

definition or_string :: "string option \<Rightarrow> string \<Rightarrow> string" where
  "or_string a b = (case a of None \<Rightarrow> b | Some s \<Rightarrow> if s = [] then b else s)"

definition start_entry ::
  "string \<Rightarrow> string \<Rightarrow> string option \<Rightarrow> string \<Rightarrow> StreamingCoachResponse" where
  "start_entry cid cname cavatar mtype =
     \<lparr>sr_coach_id = Some cid, sr_coach_name = Some cname, sr_coach_avatar = cavatar,
      sr_content = [], sr_isStreaming = Some True, sr_message_type = Some mtype\<rparr>"

definition content_entry :: "StreamingCoachResponse option \<Rightarrow> string \<Rightarrow> StreamingCoachResponse" where
  "content_entry prev frag =
     (case prev of
        None \<Rightarrow> \<lparr>sr_coach_id = None, sr_coach_name = None, sr_coach_avatar = None,
                 sr_content = [] @ frag, sr_isStreaming = None, sr_message_type = None\<rparr>
      | Some r \<Rightarrow> r\<lparr>sr_content := sr_content r @ frag\<rparr>)"

text \<open>
  \<open>handleStreamEvent\<close>. The handler is a closure of the render in which the exchange was
  started: it reads \<open>session\<close> from the properties and \<open>currentRound\<close> as that render saw
  it (the argument \<open>rnd\<close>), while the state updaters act on the latest state. Every
  updater is applied once, in the order in which the handler queues it.
\<close>

definition handleStreamEvent ::
  "RoundtableChatProps \<Rightarrow> nat \<Rightarrow> Clock \<Rightarrow> RoundtableEvent \<Rightarrow> ChatState \<Rightarrow> ChatState" where
  "handleStreamEvent props rnd clk ev st =
     (case ev of
        round_start r \<Rightarrow> st\<lparr>currentRound := r\<rparr>
      | coach_start cid cname cavatar \<Rightarrow>
          st\<lparr>currentCoachId := Some cid,
             streamingResponses :=
               AList.update cid (start_entry cid cname cavatar ''response'') (streamingResponses st)\<rparr>
      | moderator_start cid cname cavatar mtype \<Rightarrow>
          st\<lparr>currentCoachId := Some cid,
             streamingResponses :=
               AList.update cid (start_entry cid cname cavatar mtype) (streamingResponses st)\<rparr>
      | content cid frag \<Rightarrow>
          st\<lparr>streamingResponses :=
               AList.update cid (content_entry (map_of (streamingResponses st) cid) frag)
                 (streamingResponses st)\<rparr>
      | coach_end cid \<Rightarrow>
          (let st' =
             (case map_of (streamingResponses st) cid of
                None \<Rightarrow> st
              | Some response \<Rightarrow>
                  st\<lparr>messages := messages st @
                      [\<lparr>rm_id = ''coach-'' @ cid @ ''-'' @ now_ms clk,
                        rm_session_id = rs_id (session props),
                        rm_coach_id = Some cid,
                        rm_coach = coachesMap (session props) cid,
                        rm_role = assistant,
                        rm_content = sr_content response,
                        rm_attachments = None,
                        rm_message_type = or_string (sr_message_type response) ''response'',
                        rm_turn_number = Some rnd,
                        rm_created_at = now_iso clk\<rparr>]\<rparr>)
           in st'\<lparr>streamingResponses := AList.delete cid (streamingResponses st'),
                  currentCoachId := None\<rparr>)
      | moderator_end cid mtype \<Rightarrow>
          (let st' =
             (case map_of (streamingResponses st) cid of
                None \<Rightarrow> st
              | Some response \<Rightarrow>
                  st\<lparr>messages := messages st @
                      [\<lparr>rm_id = ''moderator-'' @ mtype @ ''-'' @ now_ms clk,
                        rm_session_id = rs_id (session props),
                        rm_coach_id = Some cid,
                        rm_coach =
                          (case rs_moderator (session props) of
                             Some md \<Rightarrow> Some md
                           | None \<Rightarrow> coachesMap (session props) cid),
                        rm_role = assistant,
                        rm_content = sr_content response,
                        rm_attachments = None,
                        rm_message_type = mtype,
                        rm_turn_number = Some rnd,
                        rm_created_at = now_iso clk\<rparr>]\<rparr>)
           in st'\<lparr>streamingResponses := AList.delete cid (streamingResponses st'),
                  currentCoachId := None\<rparr>)
      | round_end r \<Rightarrow> st
      | done_ev \<Rightarrow> st
      | error cid msg \<Rightarrow> st)"

text \<open>The \<open>for await\<close> loop: the events of the stream are handled in the order they arrive.\<close>

fun handleStreamEvents ::
  "RoundtableChatProps \<Rightarrow> nat \<Rightarrow> (Clock \<times> RoundtableEvent) list \<Rightarrow> ChatState \<Rightarrow> ChatState" where
  "handleStreamEvents props rnd [] st = st"
| "handleStreamEvents props rnd ((clk, ev) # evs) st =
     handleStreamEvents props rnd evs (handleStreamEvent props rnd clk ev st)"

section \<open>Roundtable chat: sending a message\<close>

text \<open>
  \<open>String.prototype.trim\<close> on the byte strings of the model: the ASCII white space and
  line terminators are stripped at both ends (the white space beyond ASCII is not
  represented in a byte string).
\<close>

definition js_whitespace :: "char \<Rightarrow> bool" where
  "js_whitespace c \<longleftrightarrow> c \<in> set [CHR 0x09, CHR 0x0A, CHR 0x0B, CHR 0x0C, CHR 0x0D, CHR 0x20]"

definition trim :: "string \<Rightarrow> string" where
  "trim s = rev (dropWhile js_whitespace (rev (dropWhile js_whitespace s)))"

text \<open>\<open>s || undefined\<close>: the empty string becomes \<open>undefined\<close>.\<close>

definition or_undefined :: "string \<Rightarrow> string option" where
  "or_undefined s = (if s = [] then None else Some s)"

text \<open>The two fixed texts of the component, as their UTF-8 bytes.\<close>

definition invalid_session_text :: string where
  "invalid_session_text = map char_of
     [233, 148, 153, 232, 175, 175, 239, 188, 154, 228, 188, 154, 232, 175, 157, 32, 73, 68,
      32, 230, 151, 160, 230, 149, 136, 239, 188, 140, 232, 175, 183, 229, 136, 183, 230, 150,
      176, 233, 161, 181, 233, 157, 162, 233, 135, 141, 232, 175, 149, 227, 128, 130 :: nat]"

definition generic_error_text :: string where
  "generic_error_text = map char_of
     [229, 143, 145, 231, 148, 159, 233, 148, 153, 232, 175, 175, 239, 188, 140, 232, 175, 183,
      231, 168, 141, 229, 144, 142, 233, 135, 141, 232, 175, 149, 227, 128, 130 :: nat]"

record ChatRequest =
  rq_session_id :: "string option"
  rq_content :: string
  rq_attachments :: "ApiMessageAttachment list option"
  rq_max_rounds :: int
  rq_debate_style :: "DebateStyle option"
  rq_config_id :: "string option"
  rq_provider :: "string option"
  rq_model :: "string option"
  rq_temperature :: real
  rq_max_tokens :: int
  rq_kb_timing :: KbTiming
  rq_kb_top_k :: int
  rq_kb_max_candidates :: int

definition effectiveModel :: "RoundtableChatProps \<Rightarrow> ChatState \<Rightarrow> ModelConfig" where
  "effectiveModel props st = (if overrideEnabled st then overrideModelConfig st else modelConfig props)"

definition effectiveKbTiming :: "RoundtableChatProps \<Rightarrow> ChatState \<Rightarrow> KbTiming" where
  "effectiveKbTiming props st = (if overrideEnabled st then overrideKbTiming st else kbTiming props)"

definition effectiveKbTopK :: "RoundtableChatProps \<Rightarrow> ChatState \<Rightarrow> int" where
  "effectiveKbTopK props st = (if overrideEnabled st then overrideKbTopK st else kbTopK props)"

definition effectiveKbMaxCandidates :: "RoundtableChatProps \<Rightarrow> ChatState \<Rightarrow> int" where
  "effectiveKbMaxCandidates props st =
     (if overrideEnabled st then overrideKbMaxCandidates st else kbMaxCandidates props)"

definition chatRequest ::
  "RoundtableChatProps \<Rightarrow> ChatState \<Rightarrow> string \<Rightarrow> ApiMessageAttachment list \<Rightarrow> ChatRequest" where
  "chatRequest props st userContent apiAttachments =
     \<lparr>rq_session_id = rs_id (session props),
      rq_content = userContent,
      rq_attachments = (if apiAttachments \<noteq> [] then Some apiAttachments else None),
      rq_max_rounds = maxRounds st,
      rq_debate_style =
        (if rs_discussion_mode (session props) = free then Some (debateStyle st) else None),
      rq_config_id = mc_configId (effectiveModel props st),
      rq_provider = or_undefined (mc_provider (effectiveModel props st)),
      rq_model = or_undefined (mc_model (effectiveModel props st)),
      rq_temperature = mc_temperature (effectiveModel props st),
      rq_max_tokens = mc_maxTokens (effectiveModel props st),
      rq_kb_timing = effectiveKbTiming props st,
      rq_kb_top_k = effectiveKbTopK props st,
      rq_kb_max_candidates = effectiveKbMaxCandidates props st\<rparr>"

text \<open>
  What one call of \<open>handleSend\<close> receives from outside: the text typed, the result of
  \<open>processAttachments\<close> (both lists empty when no attachment was given), the events the
  stream of \<open>roundtableAPI.chat\<close> yields before it ends, how it ends (\<open>closed\<close>, or
  \<open>thrown m\<close> with \<open>m\<close> the message of the error when it is an \<open>Error\<close>), and the clock
  at the message the call itself creates.
\<close>

datatype StreamEnd = closed | thrown "string option"

record SendInput =
  si_value :: string
  si_uploaded :: "ChatAttachment list"
  si_apiAttachments :: "ApiMessageAttachment list"
  si_clock :: Clock
  si_events :: "(Clock \<times> RoundtableEvent) list"
  si_end :: StreamEnd
  si_error_clock :: Clock

definition plain_message ::
  "string \<Rightarrow> string option \<Rightarrow> Role \<Rightarrow> string \<Rightarrow> ChatAttachment list option \<Rightarrow> string
   \<Rightarrow> RoundtableMessage" where
  "plain_message mid sid role text atts created =
     \<lparr>rm_id = mid, rm_session_id = sid, rm_coach_id = None, rm_coach = None, rm_role = role,
      rm_content = text, rm_attachments = atts, rm_message_type = ''response'',
      rm_turn_number = None, rm_created_at = created\<rparr>"

text \<open>The state when the request is about to be built: input cleared, user message appended.\<close>

definition send_begin :: "RoundtableChatProps \<Rightarrow> ChatState \<Rightarrow> SendInput \<Rightarrow> ChatState" where
  "send_begin props st inp =
     (let st1 = st\<lparr>input := [], isLoading := True, streamingResponses := []\<rparr>
      in st1\<lparr>messages := messages st1 @
           [plain_message (''temp-'' @ now_ms (si_clock inp)) (rs_id (session props)) user
              (trim (si_value inp))
              (if si_uploaded inp \<noteq> [] then Some (si_uploaded inp) else None)
              (now_iso (si_clock inp))]\<rparr>)"

text \<open>The \<open>catch\<close> and \<open>finally\<close> blocks.\<close>

definition send_finish :: "RoundtableChatProps \<Rightarrow> SendInput \<Rightarrow> ChatState \<Rightarrow> ChatState" where
  "send_finish props inp st =
     (let st1 =
        (case si_end inp of
           closed \<Rightarrow> st
         | thrown m \<Rightarrow>
             st\<lparr>messages := messages st @
                 [plain_message (''error-'' @ now_ms (si_error_clock inp)) (rs_id (session props))
                    assistant (or_string m generic_error_text) None
                    (now_iso (si_error_clock inp))]\<rparr>)
      in st1\<lparr>isLoading := False, currentCoachId := None, streamingResponses := [],
             overrideEnabled := False\<rparr>)"

definition session_id_ok :: "RoundtableSession \<Rightarrow> bool" where
  "session_id_ok s = (case rs_id s of None \<Rightarrow> False | Some i \<Rightarrow> i \<noteq> [])"

text \<open>
  \<open>handleSend\<close>: the request handed to \<open>roundtableAPI.chat\<close>, if one is made, and the
  state when the call has returned. The values the closure reads (\<open>isLoading\<close>, the
  override flag and bundle, \<open>maxRounds\<close>, \<open>debateStyle\<close>, \<open>currentRound\<close>) are those of
  the state \<open>st\<close> in which the call started.
\<close>

definition handleSend ::
  "RoundtableChatProps \<Rightarrow> ChatState \<Rightarrow> SendInput \<Rightarrow> ChatRequest option \<times> ChatState" where
  "handleSend props st inp =
     (if trim (si_value inp) = [] \<or> isLoading st then (None, st)
      else if \<not> session_id_ok (session props) then
        (None,
         st\<lparr>messages := messages st @
             [plain_message (''error-'' @ now_ms (si_clock inp)) (Some []) assistant
                invalid_session_text None (now_iso (si_clock inp))]\<rparr>)
      else
        (Some (chatRequest props st (trim (si_value inp)) (si_apiAttachments inp)),
         send_finish props inp
           (handleStreamEvents props (currentRound st) (si_events inp) (send_begin props st inp))))"

text \<open>
  What the component renders as conversation: the text of every message, then the text of
  every streaming entry.
\<close>

definition visible_texts :: "ChatState \<Rightarrow> string list" where
  "visible_texts st = map rm_content (messages st) @ map (sr_content \<circ> snd) (streamingResponses st)"

section \<open>The round orchestrator\<close>

text \<open>
  The orchestrator of an exchange runs on the server (the API router \<open>roundtable.py\<close> and
  the service behind it), which is not among the sources; the component above is its
  client. What follows is modelled from the specification. It uses the events, sessions,
  coaches and requests declared above, which are the wire format of the client.
\<close>

text \<open>
  Modelled from the spec: the Generation Capability, an opaque producer of text
  fragments that ends or fails. The behaviour it shows at one turn is an outcome: the
  fragments it delivered, and for a failure the message of the failure.
\<close>

datatype TurnOutcome = completes "string list" | fails "string list" string

text \<open>
  Modelled from the spec: the collaborators and constants of one exchange that the
  specification leaves open. \<open>generation r p\<close> is the behaviour of the Generation
  Capability at the turn of coach \<open>p\<close> in round \<open>r\<close>, \<open>moderation\<close> its behaviour at the
  turn of the moderator, \<open>round_ceiling\<close> the ceiling the server enforces on the round
  budget, \<open>moderator_message_type\<close> the tag of the moderator's message, and
  \<open>fatal_message\<close> the text of the error that ends an exchange.
\<close>

record Collaborators =
  generation :: "nat \<Rightarrow> string \<Rightarrow> TurnOutcome"
  moderation :: TurnOutcome
  round_ceiling :: nat
  moderator_message_type :: string
  fatal_message :: string

text \<open>
  Modelled from the spec: what the orchestrator does, in order. It emits an event to the
  stream, calls the Knowledge Capability (query, result count, candidate pool), or hands
  a participant's turn to the Context Assembler (role, participant, round, and the debate
  style that frames the persona instructions). A participant is a coach or the moderator.
\<close>

datatype ParticipantRole = coach_role | moderator_role

text \<open>
  Modelled from the spec: the actions of the orchestrator, one constructor for each of the
  three things above.
\<close>

datatype Action =
    Emit RoundtableEvent
  | Fetch string int int
  | Assemble ParticipantRole string nat "DebateStyle option"

text \<open>Modelled from the spec: the configuration errors, rejected before any event.\<close>

datatype ConfigError = empty_roster | missing_moderator

text \<open>
  Modelled from the spec: the positions of an exchange at which the Knowledge Injection
  Policy is asked, and the policy, a decision over the timing and the position
  (section 4.3).
\<close>

datatype Position =
    before_round_one
  | at_round_start nat
  | before_coach_turn nat
  | before_moderator_phase

text \<open>Modelled from the spec: the table of the Knowledge Injection Policy.\<close>

fun should_fetch :: "KbTiming \<Rightarrow> Position \<Rightarrow> bool" where
  "should_fetch kb_off pos = False"
| "should_fetch kb_message pos = (pos = before_round_one)"
| "should_fetch kb_round pos = (case pos of at_round_start r \<Rightarrow> True | _ \<Rightarrow> False)"
| "should_fetch kb_coach pos = (case pos of before_coach_turn r \<Rightarrow> True | _ \<Rightarrow> False)"
| "should_fetch kb_moderator pos = (pos = before_moderator_phase)"

text \<open>
  Modelled from the spec: a fetch passes the user message as the query and the budgets of
  the request; its result feeds the prompt only, and a failed retrieval emits nothing.
\<close>

definition fetch_actions :: "ChatRequest \<Rightarrow> Position \<Rightarrow> Action list" where
  "fetch_actions rq pos =
     (if should_fetch (rq_kb_timing rq) pos
      then [Fetch (rq_content rq) (rq_kb_top_k rq) (rq_kb_max_candidates rq)] else [])"

text \<open>
  Modelled from the spec: the Coach Turn Executor (section 4.4). A turn-start event, one
  content event per fragment with exactly that fragment, then the turn-end event, or an
  error scoped to the turn when the Generation Capability fails.
\<close>

fun coach_turn_executor :: "CoachBrief \<Rightarrow> TurnOutcome \<Rightarrow> RoundtableEvent list" where
  "coach_turn_executor c (completes frags) =
     coach_start (cb_id c) (cb_name c) (cb_avatar_url c) # map (content (cb_id c)) frags
       @ [coach_end (cb_id c)]"
| "coach_turn_executor c (fails frags msg) =
     coach_start (cb_id c) (cb_name c) (cb_avatar_url c) # map (content (cb_id c)) frags
       @ [error (Some (cb_id c)) msg]"

text \<open>
  Modelled from the spec: the Moderator Synthesizer (section 4.5), the same executor with
  the moderator's events and message type.
\<close>

fun moderator_turn_executor :: "CoachBrief \<Rightarrow> string \<Rightarrow> TurnOutcome \<Rightarrow> RoundtableEvent list" where
  "moderator_turn_executor md mtype (completes frags) =
     moderator_start (cb_id md) (cb_name md) (cb_avatar_url md) mtype
       # map (content (cb_id md)) frags @ [moderator_end (cb_id md) mtype]"
| "moderator_turn_executor md mtype (fails frags msg) =
     moderator_start (cb_id md) (cb_name md) (cb_avatar_url md) mtype
       # map (content (cb_id md)) frags @ [error (Some (cb_id md)) msg]"

text \<open>Modelled from the spec: a turn is finalised as failed when the capability fails.\<close>

fun turn_failed :: "TurnOutcome \<Rightarrow> bool" where
  "turn_failed (completes frags) = False"
| "turn_failed (fails frags msg) = True"

text \<open>
  Modelled from the spec: one coach turn of a round. The policy is asked, the prompt is
  assembled, the executor runs and its events are forwarded.
\<close>

definition coach_turn ::
  "Collaborators \<Rightarrow> ChatRequest \<Rightarrow> DebateStyle option \<Rightarrow> nat \<Rightarrow> CoachBrief \<Rightarrow> Action list" where
  "coach_turn E rq sty r c =
     fetch_actions rq (before_coach_turn r) @ [Assemble coach_role (cb_id c) r sty]
       @ map Emit (coach_turn_executor c (generation E r (cb_id c)))"

text \<open>
  Modelled from the spec: the turns of one round, every active coach once, in roster
  order, one after the other.
\<close>

definition round_turns ::
  "Collaborators \<Rightarrow> ChatRequest \<Rightarrow> DebateStyle option \<Rightarrow> nat \<Rightarrow> CoachBrief list \<Rightarrow> Action list" where
  "round_turns E rq sty r active = concat (map (coach_turn E rq sty r) active)"

text \<open>
  Modelled from the spec: a participant whose turn failed is excluded from the rounds
  that follow; the survivors of a round are the roster of the next.
\<close>

definition survivors :: "Collaborators \<Rightarrow> nat \<Rightarrow> CoachBrief list \<Rightarrow> CoachBrief list" where
  "survivors E r active = filter (\<lambda>c. \<not> turn_failed (generation E r (cb_id c))) active"

text \<open>
  Modelled from the spec: the rounds of a free exchange (section 4.1): \<open>n\<close> rounds are
  left, the next has number \<open>r\<close> and roster \<open>active\<close>. When every participant of a round
  fails the exchange ends with an error without coach id; when the budget is used up it
  ends with \<open>done\<close>.
\<close>

fun free_rounds ::
  "Collaborators \<Rightarrow> ChatRequest \<Rightarrow> nat \<Rightarrow> nat \<Rightarrow> CoachBrief list \<Rightarrow> Action list" where
  "free_rounds E rq 0 r active = [Emit done_ev]"
| "free_rounds E rq (Suc n) r active =
     Emit (round_start r) # fetch_actions rq (at_round_start r)
       @ round_turns E rq (rq_debate_style rq) r active
       @ (if survivors E r active = [] then [Emit (error None (fatal_message E))]
          else Emit (round_end r) # free_rounds E rq n (Suc r) (survivors E r active))"

text \<open>
  Modelled from the spec: a moderated exchange: one round of all coaches, then the
  moderator phase, then \<open>done\<close>. The debate style has no meaning here, and a failed
  moderator turn is a scoped failure, which does not close the stream.
\<close>

definition moderated_exchange ::
  "Collaborators \<Rightarrow> ChatRequest \<Rightarrow> CoachBrief list \<Rightarrow> CoachBrief \<Rightarrow> Action list" where
  "moderated_exchange E rq roster md =
     Emit (round_start 1) # fetch_actions rq (at_round_start 1)
       @ round_turns E rq None 1 roster
       @ (if survivors E 1 roster = [] then [Emit (error None (fatal_message E))]
          else Emit (round_end 1) # fetch_actions rq before_moderator_phase
                 @ [Assemble moderator_role (cb_id md) 1 None]
                 @ map Emit (moderator_turn_executor md (moderator_message_type E) (moderation E))
                 @ [Emit done_ev])"

text \<open>
  Modelled from the spec: the round budget of a free exchange, the rounds the request
  asks for under the ceiling of the server.
\<close>

definition round_budget :: "Collaborators \<Rightarrow> ChatRequest \<Rightarrow> nat" where
  "round_budget E rq = min (nat (rq_max_rounds rq)) (round_ceiling E)"

text \<open>
  Modelled from the spec: one exchange. The roster and, in moderated mode, the moderator
  are validated before any event; then the policy is asked before round one and the
  rounds run.
\<close>

definition orchestrate :: "Collaborators \<Rightarrow> RoundtableSession \<Rightarrow> ChatRequest \<Rightarrow> ConfigError + Action list" where
  "orchestrate E sess rq =
     (let roster = (case rs_coaches sess of None \<Rightarrow> [] | Some cs \<Rightarrow> cs) in
      if roster = [] then Inl empty_roster
      else case rs_discussion_mode sess of
             free \<Rightarrow>
               Inr (fetch_actions rq before_round_one
                      @ free_rounds E rq (round_budget E rq) 1 roster)
           | moderated \<Rightarrow>
               (case rs_moderator sess of
                  None \<Rightarrow> Inl missing_moderator
                | Some md \<Rightarrow>
                    Inr (fetch_actions rq before_round_one @ moderated_exchange E rq roster md)))"

text \<open>The events of a run, and the calls of the Knowledge Capability in it.\<close>

fun emitted :: "Action list \<Rightarrow> RoundtableEvent list" where
  "emitted [] = []"
| "emitted (Emit ev # acts) = ev # emitted acts"
| "emitted (a # acts) = emitted acts"

fun is_fetch :: "Action \<Rightarrow> bool" where
  "is_fetch (Fetch q k m) = True"
| "is_fetch a = False"

definition knowledge_calls :: "Action list \<Rightarrow> nat" where
  "knowledge_calls acts = length (filter is_fetch acts)"

section \<open>Vocabulary of the properties\<close>

text \<open>
  A turn of participant \<open>cid\<close> opens with a start event for \<open>cid\<close> and closes with an end
  event for \<open>cid\<close>; \<open>fragments_for cid evs\<close> are the texts of the \<open>content\<close> events for
  \<open>cid\<close> among \<open>evs\<close>, in the order of arrival.
\<close>

fun is_start_for :: "string \<Rightarrow> RoundtableEvent \<Rightarrow> bool" where
  "is_start_for cid (coach_start c n a) = (c = cid)"
| "is_start_for cid (moderator_start c n a t) = (c = cid)"
| "is_start_for cid ev = False"

fun is_end_for :: "string \<Rightarrow> RoundtableEvent \<Rightarrow> bool" where
  "is_end_for cid (coach_end c) = (c = cid)"
| "is_end_for cid (moderator_end c t) = (c = cid)"
| "is_end_for cid ev = False"

fun fragments_for :: "string \<Rightarrow> RoundtableEvent list \<Rightarrow> string list" where
  "fragments_for cid [] = []"
| "fragments_for cid (content c frag # evs) =
     (if c = cid then frag # fragments_for cid evs else fragments_for cid evs)"
| "fragments_for cid (ev # evs) = fragments_for cid evs"

text \<open>
  The settings of a request as the specification names them: a bundle of the model
  parameters and the knowledge settings, and the tagged choice between the bundle of the
  session and an override bundle. \<open>sessionBundle\<close> and \<open>overrideBundle\<close> collect what the
  component holds in its properties and in its override state.
\<close>

record SettingsBundle =
  sb_model :: ModelConfig
  sb_kbTiming :: KbTiming
  sb_kbTopK :: int
  sb_kbMaxCandidates :: int

datatype ConfigChoice = UseSessionDefaults | UseOverride SettingsBundle

definition sessionBundle :: "RoundtableChatProps \<Rightarrow> SettingsBundle" where
  "sessionBundle props =
     \<lparr>sb_model = modelConfig props, sb_kbTiming = kbTiming props, sb_kbTopK = kbTopK props,
      sb_kbMaxCandidates = kbMaxCandidates props\<rparr>"

definition overrideBundle :: "ChatState \<Rightarrow> SettingsBundle" where
  "overrideBundle st =
     \<lparr>sb_model = overrideModelConfig st, sb_kbTiming = overrideKbTiming st,
      sb_kbTopK = overrideKbTopK st, sb_kbMaxCandidates = overrideKbMaxCandidates st\<rparr>"

fun resolve_choice :: "RoundtableChatProps \<Rightarrow> ConfigChoice \<Rightarrow> SettingsBundle" where
  "resolve_choice props UseSessionDefaults = sessionBundle props"
| "resolve_choice props (UseOverride b) = b"

definition config_choice :: "ChatState \<Rightarrow> ConfigChoice" where
  "config_choice st = (if overrideEnabled st then UseOverride (overrideBundle st) else UseSessionDefaults)"

text \<open>The settings a request carries, and the settings a request built from one bundle carries.\<close>

type_synonym RequestSettings =
  "string option \<times> string option \<times> string option \<times> real \<times> int \<times> KbTiming \<times> int \<times> int"

definition request_settings :: "ChatRequest \<Rightarrow> RequestSettings" where
  "request_settings rq =
     (rq_config_id rq, rq_provider rq, rq_model rq, rq_temperature rq, rq_max_tokens rq,
      rq_kb_timing rq, rq_kb_top_k rq, rq_kb_max_candidates rq)"

definition bundle_settings :: "SettingsBundle \<Rightarrow> RequestSettings" where
  "bundle_settings b =
     (mc_configId (sb_model b), or_undefined (mc_provider (sb_model b)),
      or_undefined (mc_model (sb_model b)), mc_temperature (sb_model b), mc_maxTokens (sb_model b),
      sb_kbTiming b, sb_kbTopK b, sb_kbMaxCandidates b)"

text \<open>A call of \<open>handleSend\<close> starts an exchange when it passes the two guards of the code.\<close>

definition starts_exchange :: "RoundtableChatProps \<Rightarrow> ChatState \<Rightarrow> SendInput \<Rightarrow> bool" where
  "starts_exchange props st inp \<longleftrightarrow>
     trim (si_value inp) \<noteq> [] \<and> \<not> isLoading st \<and> session_id_ok (session props)"

text \<open>
  Vocabulary for runs of the orchestrator: the rounds run, the coach turns started, the
  roster that is active \<open>k\<close> rounds after round \<open>r\<close>, and a run with the debate style
  taken out of what is handed to the Context Assembler.
\<close>

fun is_round_start :: "RoundtableEvent \<Rightarrow> bool" where
  "is_round_start (round_start r) = True"
| "is_round_start ev = False"

fun is_coach_start :: "RoundtableEvent \<Rightarrow> bool" where
  "is_coach_start (coach_start c n a) = True"
| "is_coach_start ev = False"

definition rounds_run :: "Action list \<Rightarrow> nat" where
  "rounds_run acts = length (filter is_round_start (emitted acts))"

definition coach_turns_started :: "Action list \<Rightarrow> nat" where
  "coach_turns_started acts = length (filter is_coach_start (emitted acts))"

fun active_in :: "Collaborators \<Rightarrow> nat \<Rightarrow> CoachBrief list \<Rightarrow> nat \<Rightarrow> CoachBrief list" where
  "active_in E r active 0 = active"
| "active_in E r active (Suc k) = active_in E (Suc r) (survivors E r active) k"

fun erase_style :: "Action \<Rightarrow> Action" where
  "erase_style (Assemble role p r s) = Assemble role p r None"
| "erase_style a = a"

text \<open>
  Every call of the Knowledge Capability stands immediately before the assembly of a
  coach turn, and every coach turn has one.
\<close>

fun fetch_before_each_coach_turn :: "Action list \<Rightarrow> bool" where
  "fetch_before_each_coach_turn [] = True"
| "fetch_before_each_coach_turn (Fetch q k m # Assemble coach_role p r s # acts) =
     fetch_before_each_coach_turn acts"
| "fetch_before_each_coach_turn (Fetch q k m # acts) = False"
| "fetch_before_each_coach_turn (Assemble coach_role p r s # acts) = False"
| "fetch_before_each_coach_turn (a # acts) = fetch_before_each_coach_turn acts"

text \<open>
  The events of the coach turns of round \<open>r\<close> with roster \<open>active\<close>, and the statement
  that in the round \<open>k\<close> rounds after round \<open>r\<close> some participant of the active roster
  completes its turn.
\<close>

definition round_events :: "Collaborators \<Rightarrow> nat \<Rightarrow> CoachBrief list \<Rightarrow> RoundtableEvent list" where
  "round_events E r active = concat (map (\<lambda>c. coach_turn_executor c (generation E r (cb_id c))) active)"

definition some_turn_completes :: "Collaborators \<Rightarrow> nat \<Rightarrow> CoachBrief list \<Rightarrow> nat \<Rightarrow> bool" where
  "some_turn_completes E r active k \<longleftrightarrow>
     (\<exists>c \<in> set (active_in E r active k). \<not> turn_failed (generation E (r + k) (cb_id c)))"

text \<open>No coach turn starts for a participant after an error scoped to that participant.\<close>

fun starts_turn_of :: "string \<Rightarrow> RoundtableEvent \<Rightarrow> bool" where
  "starts_turn_of p (coach_start c n a) = (c = p)"
| "starts_turn_of p ev = False"

fun excluded_after_failure :: "RoundtableEvent list \<Rightarrow> bool" where
  "excluded_after_failure [] = True"
| "excluded_after_failure (error (Some p) m # evs) =
     (list_all (\<lambda>ev. \<not> starts_turn_of p ev) evs \<and> excluded_after_failure evs)"
| "excluded_after_failure (ev # evs) = excluded_after_failure evs"

text \<open>Sample values, used where a property is shown at a concrete input.\<close>

definition sample_session :: RoundtableSession where
  "sample_session =
     \<lparr>rs_id = Some ''s1'', rs_discussion_mode = free,
      rs_coaches = Some [\<lparr>cb_id = ''a'', cb_name = ''Ann'', cb_avatar_url = None\<rparr>,
                         \<lparr>cb_id = ''b'', cb_name = ''Bob'', cb_avatar_url = None\<rparr>],
      rs_moderator = None, rs_is_active = True\<rparr>"

definition sample_props :: RoundtableChatProps where
  "sample_props =
     \<lparr>session = sample_session,
      modelConfig = \<lparr>mc_configId = Some ''c1'', mc_provider = ''p1'', mc_model = ''m1'',
                      mc_temperature = 1, mc_maxTokens = 100\<rparr>,
      kbTiming = kb_off, kbTopK = 5, kbMaxCandidates = 400\<rparr>"

definition sample_state :: ChatState where
  "sample_state =
     \<lparr>messages = [], input = ''hi'', isLoading = False, currentRound = 0, maxRounds = 2,
      debateStyle = clash, streamingResponses = [], currentCoachId = None,
      overrideEnabled = True,
      overrideModelConfig = \<lparr>mc_configId = Some ''c2'', mc_provider = ''p2'', mc_model = [],
                              mc_temperature = 0, mc_maxTokens = 200\<rparr>,
      overrideKbTiming = kb_coach, overrideKbTopK = 3, overrideKbMaxCandidates = 100\<rparr>"

definition sample_clock :: Clock where
  "sample_clock = \<lparr>now_ms = ''17'', now_iso = ''t''\<rparr>"

definition sample_input :: SendInput where
  "sample_input =
     \<lparr>si_value = '' hi '', si_uploaded = [], si_apiAttachments = [], si_clock = sample_clock,
      si_events = [(sample_clock, coach_start ''a'' ''Ann'' None), (sample_clock, content ''a'' ''Hel'')],
      si_end = thrown (Some ''boom''), si_error_clock = sample_clock\<rparr>"

definition sample_collaborators :: Collaborators where
  "sample_collaborators =
     \<lparr>generation = (\<lambda>r p. if r = 1 \<and> p = ''a'' then fails [''x''] ''timeout'' else completes [''ok'']),
      moderation = completes [''sum''], round_ceiling = 3, moderator_message_type = ''summary'',
      fatal_message = ''all failed''\<rparr>"

definition sample_request :: ChatRequest where
  "sample_request = chatRequest sample_props sample_state ''hi'' []"

definition sample_moderated_session :: RoundtableSession where
  "sample_moderated_session =
     \<lparr>rs_id = Some ''s2'', rs_discussion_mode = moderated,
      rs_coaches = Some [\<lparr>cb_id = ''a'', cb_name = ''Ann'', cb_avatar_url = None\<rparr>],
      rs_moderator = Some \<lparr>cb_id = ''m'', cb_name = ''Mod'', cb_avatar_url = None\<rparr>,
      rs_is_active = True\<rparr>"

section \<open>Properties of the roster selector\<close>

lemma toggle_counts [simp]:
  "minCount (toggle p c) = minCount p" "maxCount (toggle p c) = maxCount p"
  by (simp_all add: toggle_def split: option.splits)

lemma toggle_maxCount_of [simp]: "maxCount_of (toggle p c) = maxCount_of p"
  by (simp add: maxCount_of_def)

lemma toggle_bound:
  "int (length (selectedIds p)) \<le> maxCount_of p
   \<Longrightarrow> int (length (selectedIds (toggle p c))) \<le> maxCount_of p"
proof (cases "c \<in> set (selectedIds p)")
  case True
  assume b: "int (length (selectedIds p)) \<le> maxCount_of p"
  have "length (filter (\<lambda>i. i \<noteq> c) (selectedIds p)) \<le> length (selectedIds p)"
    by (rule length_filter_le)
  with b have "int (length (filter (\<lambda>i. i \<noteq> c) (selectedIds p))) \<le> maxCount_of p"
    by linarith
  with True show ?thesis
    by (simp add: toggle_def handleToggle_def)
next
  case False
  then show "int (length (selectedIds p)) \<le> maxCount_of p \<Longrightarrow> ?thesis"
    by (simp add: toggle_def handleToggle_def)
qed

lemma toggles_bound:
  "int (length (selectedIds p)) \<le> maxCount_of p
   \<Longrightarrow> int (length (selectedIds (toggles p cs))) \<le> maxCount_of p"
proof (induction cs arbitrary: p)
  case Nil
  then show ?case by simp
next
  case (Cons c cs)
  from Cons.prems have "int (length (selectedIds (toggle p c))) \<le> maxCount_of (toggle p c)"
    by (simp add: toggle_bound)
  from Cons.IH [OF this] show ?case by simp
qed

text \<open>
  Claim C10. Starting from a selection within the bound, every sequence of toggles keeps
  the selection at most \<open>maxCount\<close> long; toggling a selected coach removes it; toggling
  an unselected coach appends it exactly when the selection is strictly below
  \<open>maxCount\<close> and otherwise changes nothing; and the selection is valid exactly when its
  size lies between \<open>minCount\<close> and \<open>maxCount\<close> inclusive, which default to 2 and 5.
\<close>

theorem selector_bound_preserved:
  "(int (length (selectedIds p)) \<le> maxCount_of p
      \<longrightarrow> int (length (selectedIds (toggles p cs))) \<le> maxCount_of p)
   \<and> (c \<in> set (selectedIds p)
      \<longrightarrow> handleToggle p c = Some (filter (\<lambda>i. i \<noteq> c) (selectedIds p))
          \<and> c \<notin> set (selectedIds (toggle p c)))
   \<and> (c \<notin> set (selectedIds p)
      \<longrightarrow> (int (length (selectedIds p)) < maxCount_of p
             \<longrightarrow> selectedIds (toggle p c) = selectedIds p @ [c])
          \<and> (\<not> int (length (selectedIds p)) < maxCount_of p \<longrightarrow> toggle p c = p))
   \<and> (isValid p \<longleftrightarrow>
        minCount_of p \<le> int (length (selectedIds p))
        \<and> int (length (selectedIds p)) \<le> maxCount_of p)
   \<and> (minCount p = None \<longrightarrow> minCount_of p = 2)
   \<and> (maxCount p = None \<longrightarrow> maxCount_of p = 5)"
proof (intro conjI impI)
  assume "int (length (selectedIds p)) \<le> maxCount_of p"
  then show "int (length (selectedIds (toggles p cs))) \<le> maxCount_of p"
    by (rule toggles_bound)
next
  assume "c \<in> set (selectedIds p)"
  then show "handleToggle p c = Some (filter (\<lambda>i. i \<noteq> c) (selectedIds p))"
    by (simp add: handleToggle_def)
next
  assume "c \<in> set (selectedIds p)"
  then show "c \<notin> set (selectedIds (toggle p c))"
    by (simp add: toggle_def handleToggle_def)
next
  assume "c \<notin> set (selectedIds p)" "int (length (selectedIds p)) < maxCount_of p"
  then show "selectedIds (toggle p c) = selectedIds p @ [c]"
    by (simp add: toggle_def handleToggle_def)
next
  assume "c \<notin> set (selectedIds p)" "\<not> int (length (selectedIds p)) < maxCount_of p"
  then show "toggle p c = p"
    by (simp add: toggle_def handleToggle_def)
next
  show "isValid p \<longleftrightarrow>
        minCount_of p \<le> int (length (selectedIds p))
        \<and> int (length (selectedIds p)) \<le> maxCount_of p"
    by (simp add: isValid_def)
next
  assume "minCount p = None"
  then show "minCount_of p = 2" by (simp add: minCount_of_def)
next
  assume "maxCount p = None"
  then show "maxCount_of p = 5" by (simp add: maxCount_of_def)
qed

theorem selector_bound_preserved_witness:
  "int (length (selectedIds \<lparr>selectedIds = [''a'', ''b'', ''c'', ''d''], minCount = None, maxCount = None\<rparr>))
     \<le> maxCount_of \<lparr>selectedIds = [''a'', ''b'', ''c'', ''d''], minCount = None, maxCount = None\<rparr>
   \<and> int (length (selectedIds (toggles \<lparr>selectedIds = [''a'', ''b'', ''c'', ''d''], minCount = None, maxCount = None\<rparr>
          [''e'', ''f'', ''a'']))) \<le> 5
   \<and> ''a'' \<in> set (selectedIds \<lparr>selectedIds = [''a'', ''b'', ''c'', ''d''], minCount = None, maxCount = None\<rparr>)
   \<and> ''a'' \<notin> set (selectedIds (toggle \<lparr>selectedIds = [''a'', ''b'', ''c'', ''d''], minCount = None, maxCount = None\<rparr> ''a''))
   \<and> ''e'' \<notin> set (selectedIds \<lparr>selectedIds = [''a'', ''b'', ''c'', ''d''], minCount = None, maxCount = None\<rparr>)
   \<and> selectedIds (toggle \<lparr>selectedIds = [''a'', ''b'', ''c'', ''d''], minCount = None, maxCount = None\<rparr> ''e'')
       = [''a'', ''b'', ''c'', ''d'', ''e'']
   \<and> toggle \<lparr>selectedIds = [''a'', ''b'', ''c'', ''d'', ''e''], minCount = None, maxCount = None\<rparr> ''f''
       = \<lparr>selectedIds = [''a'', ''b'', ''c'', ''d'', ''e''], minCount = None, maxCount = None\<rparr>
   \<and> isValid \<lparr>selectedIds = [''a'', ''b'', ''c'', ''d''], minCount = None, maxCount = None\<rparr>"
  using selector_bound_preserved
          [of "\<lparr>selectedIds = [''a'', ''b'', ''c'', ''d''], minCount = None, maxCount = None\<rparr>"
              "[''e'', ''f'', ''a'']" "''a''"]
        selector_bound_preserved
          [of "\<lparr>selectedIds = [''a'', ''b'', ''c'', ''d''], minCount = None, maxCount = None\<rparr>"
              "[''e'', ''f'', ''a'']" "''e''"]
        selector_bound_preserved
          [of "\<lparr>selectedIds = [''a'', ''b'', ''c'', ''d'', ''e''], minCount = None, maxCount = None\<rparr>"
              "[]" "''f''"]
  by (simp add: maxCount_of_def minCount_of_def)

section \<open>Properties of the stream event handler\<close>

lemma start_sets_entry:
  "is_start_for cid ev \<Longrightarrow>
   \<exists>r. map_of (streamingResponses (handleStreamEvent props rnd clk ev st)) cid = Some r \<and> sr_content r = []"
  by (cases ev) (auto simp: handleStreamEvent_def update_conv' start_entry_def)

lemma step_keeps_entry:
  "map_of (streamingResponses st) cid = Some r \<Longrightarrow> \<not> is_start_for cid ev \<Longrightarrow> \<not> is_end_for cid ev \<Longrightarrow>
   \<exists>r'. map_of (streamingResponses (handleStreamEvent props rnd clk ev st)) cid = Some r'
        \<and> sr_content r' = sr_content r @ concat (fragments_for cid [ev])"
  by (cases ev) (auto simp: handleStreamEvent_def update_conv' delete_conv' content_entry_def Let_def split: option.splits)

lemma fragments_for_Cons: "fragments_for cid (ev # evs) = fragments_for cid [ev] @ fragments_for cid evs"
  by (cases ev) auto

lemma steps_keep_entry:
  "map_of (streamingResponses st) cid = Some r
   \<Longrightarrow> \<forall>ev \<in> set (map snd evs). \<not> is_start_for cid ev \<and> \<not> is_end_for cid ev
   \<Longrightarrow> \<exists>r'. map_of (streamingResponses (handleStreamEvents props rnd evs st)) cid = Some r'
        \<and> sr_content r' = sr_content r @ concat (fragments_for cid (map snd evs))"
proof (induction evs arbitrary: st r)
  case Nil
  then show ?case by simp
next
  case (Cons a evs)
  obtain clk ev where a: "a = (clk, ev)" by (cases a)
  from Cons.prems a have nb: "\<not> is_start_for cid ev" "\<not> is_end_for cid ev" by auto
  from step_keeps_entry [OF Cons.prems(1) nb] obtain r1 where
    r1: "map_of (streamingResponses (handleStreamEvent props rnd clk ev st)) cid = Some r1"
        "sr_content r1 = sr_content r @ concat (fragments_for cid [ev])" by blast
  from Cons.prems(2) have rest: "\<forall>ev \<in> set (map snd evs). \<not> is_start_for cid ev \<and> \<not> is_end_for cid ev"
    by simp
  from Cons.IH [OF r1(1) rest] obtain r' where
    "map_of (streamingResponses (handleStreamEvents props rnd evs (handleStreamEvent props rnd clk ev st))) cid = Some r'"
    "sr_content r' = sr_content r1 @ concat (fragments_for cid (map snd evs))" by blast
  with r1(2) a show ?case
    by (simp add: fragments_for_Cons [of cid ev "map snd evs"])
qed

lemma end_records_entry:
  "is_end_for cid ev \<Longrightarrow> map_of (streamingResponses st) cid = Some r \<Longrightarrow>
   \<exists>m. messages (handleStreamEvent props rnd clk ev st) = messages st @ [m]
      \<and> rm_content m = sr_content r \<and> rm_coach_id m = Some cid"
  by (cases ev) (auto simp: handleStreamEvent_def Let_def)




lemma handleStreamEvents_append:
  "handleStreamEvents props rnd (xs @ ys) st
   = handleStreamEvents props rnd ys (handleStreamEvents props rnd xs st)"
  by (induction xs arbitrary: st) auto

text \<open>
  Claim C2. When the end event of a turn (\<open>coach_end\<close> or \<open>moderator_end\<close>) is handled,
  the message it records for the participant has as content the concatenation, in the
  order of arrival, of exactly the fragments of the \<open>content\<close> events received for that
  participant since its start event; events for other participants in between change
  nothing of it.
\<close>

theorem turn_end_content_is_concatenation:
  assumes "is_start_for cid ev0" and "is_end_for cid ev1"
    and "\<forall>ev \<in> set (map snd evs). \<not> is_start_for cid ev \<and> \<not> is_end_for cid ev"
  shows "\<exists>m. messages (handleStreamEvents props rnd ((c0, ev0) # evs @ [(c1, ev1)]) st)
               = messages (handleStreamEvents props rnd ((c0, ev0) # evs) st) @ [m]
             \<and> rm_coach_id m = Some cid
             \<and> rm_content m = concat (fragments_for cid (map snd evs))"
proof -
  let ?s0 = "handleStreamEvent props rnd c0 ev0 st"
  let ?s1 = "handleStreamEvents props rnd evs ?s0"
  from start_sets_entry [OF assms(1)] obtain r0 where
    r0: "map_of (streamingResponses ?s0) cid = Some r0" "sr_content r0 = []" by blast
  from steps_keep_entry [OF r0(1) assms(3)] r0(2) obtain r1 where
    r1: "map_of (streamingResponses ?s1) cid = Some r1"
        "sr_content r1 = concat (fragments_for cid (map snd evs))" by auto
  from end_records_entry [OF assms(2) r1(1)] obtain m where
    "messages (handleStreamEvent props rnd c1 ev1 ?s1) = messages ?s1 @ [m]"
    "rm_content m = sr_content r1" "rm_coach_id m = Some cid" by blast
  with r1(2) show ?thesis
    by (simp add: handleStreamEvents_append)
qed

theorem turn_end_content_is_concatenation_witness:
  "is_start_for ''a'' (coach_start ''a'' ''Ann'' None)
   \<and> is_end_for ''a'' (coach_end ''a'')
   \<and> list_all (\<lambda>ev. \<not> is_start_for ''a'' ev \<and> \<not> is_end_for ''a'' ev)
        (map snd [(sample_clock, content ''a'' ''He''), (sample_clock, content ''b'' ''xx''),
                  (sample_clock, content ''a'' ''llo'')])
   \<and> (\<exists>m. messages (handleStreamEvents sample_props 0
               ((sample_clock, coach_start ''a'' ''Ann'' None) #
                [(sample_clock, content ''a'' ''He''), (sample_clock, content ''b'' ''xx''),
                 (sample_clock, content ''a'' ''llo'')] @ [(sample_clock, coach_end ''a'')]) sample_state)
            = messages (handleStreamEvents sample_props 0
               ((sample_clock, coach_start ''a'' ''Ann'' None) #
                [(sample_clock, content ''a'' ''He''), (sample_clock, content ''b'' ''xx''),
                 (sample_clock, content ''a'' ''llo'')]) sample_state) @ [m]
          \<and> rm_coach_id m = Some ''a'' \<and> rm_content m = ''Hello'')"
proof -
  have h1: "is_start_for ''a'' (coach_start ''a'' ''Ann'' None)" by simp
  have h2: "is_end_for ''a'' (coach_end ''a'')" by simp
  have h3: "\<forall>ev \<in> set (map snd [(sample_clock, content ''a'' ''He''), (sample_clock, content ''b'' ''xx''),
                              (sample_clock, content ''a'' ''llo'')]).
         \<not> is_start_for ''a'' ev \<and> \<not> is_end_for ''a'' ev" by simp
  from turn_end_content_is_concatenation [OF h1 h2 h3, of sample_props 0 sample_clock sample_clock sample_state]
  have "\<exists>m. messages (handleStreamEvents sample_props 0
               ((sample_clock, coach_start ''a'' ''Ann'' None) #
                [(sample_clock, content ''a'' ''He''), (sample_clock, content ''b'' ''xx''),
                 (sample_clock, content ''a'' ''llo'')] @ [(sample_clock, coach_end ''a'')]) sample_state)
            = messages (handleStreamEvents sample_props 0
               ((sample_clock, coach_start ''a'' ''Ann'' None) #
                [(sample_clock, content ''a'' ''He''), (sample_clock, content ''b'' ''xx''),
                 (sample_clock, content ''a'' ''llo'')]) sample_state) @ [m]
          \<and> rm_coach_id m = Some ''a'' \<and> rm_content m = ''Hello''"
    by simp
  with h1 h2 h3 show ?thesis by (simp only: list_all_iff simp_thms)
qed



section \<open>Properties of sending a message\<close>

lemma chatRequest_settings:
  "request_settings (chatRequest props st c a) = bundle_settings (resolve_choice props (config_choice st))"
  by (simp add: request_settings_def chatRequest_def bundle_settings_def config_choice_def
        effectiveModel_def effectiveKbTiming_def effectiveKbTopK_def effectiveKbMaxCandidates_def
        sessionBundle_def overrideBundle_def)

text \<open>
  Claim C1. Every request that \<open>handleSend\<close> builds takes its model parameters
  (configuration id, provider, model, temperature, maximal output tokens) and its knowledge
  settings (timing, result count, candidate pool) from one bundle as a whole, selected by
  the single flag \<open>overrideEnabled\<close>: all of them from the override bundle when the flag is
  set, all of them from the bundle of the session when it is not. No request mixes fields
  of the two bundles.
\<close>

theorem request_settings_all_or_nothing:
  "fst (handleSend props st inp) = Some rq \<longrightarrow>
     request_settings rq = bundle_settings (resolve_choice props (config_choice st))
     \<and> (overrideEnabled st \<longrightarrow> request_settings rq = bundle_settings (overrideBundle st))
     \<and> (\<not> overrideEnabled st \<longrightarrow> request_settings rq = bundle_settings (sessionBundle props))"
  by (auto simp: handleSend_def chatRequest_settings config_choice_def split: if_splits)

theorem request_settings_all_or_nothing_witness:
  "fst (handleSend sample_props sample_state sample_input)
     = Some (chatRequest sample_props sample_state ''hi'' [])
   \<and> overrideEnabled sample_state
   \<and> request_settings (chatRequest sample_props sample_state ''hi'' [])
       = (Some ''c2'', Some ''p2'', None, 0, 200, kb_coach, 3, 100)
   \<and> \<not> overrideEnabled (sample_state\<lparr>overrideEnabled := False\<rparr>)
   \<and> request_settings (chatRequest sample_props (sample_state\<lparr>overrideEnabled := False\<rparr>) ''hi'' [])
       = (Some ''c1'', Some ''p1'', Some ''m1'', 1, 100, kb_off, 5, 400)"
proof -
  have t: "trim '' hi '' = ''hi''"
    by (simp add: trim_def js_whitespace_def)
  have a: "fst (handleSend sample_props sample_state sample_input)
     = Some (chatRequest sample_props sample_state ''hi'' [])"
    by (simp add: handleSend_def sample_input_def t sample_state_def sample_props_def
          sample_session_def session_id_ok_def)
  have b: "fst (handleSend sample_props (sample_state\<lparr>overrideEnabled := False\<rparr>) sample_input)
     = Some (chatRequest sample_props (sample_state\<lparr>overrideEnabled := False\<rparr>) ''hi'' [])"
    by (simp add: handleSend_def sample_input_def t sample_state_def sample_props_def
          sample_session_def session_id_ok_def)
  have c: "overrideEnabled sample_state" by (simp add: sample_state_def)
  from request_settings_all_or_nothing [of sample_props sample_state sample_input
         "chatRequest sample_props sample_state ''hi'' []"] a c
  have r1: "request_settings (chatRequest sample_props sample_state ''hi'' [])
       = (Some ''c2'', Some ''p2'', None, 0, 200, kb_coach, 3, 100)"
    by (simp add: bundle_settings_def overrideBundle_def sample_state_def or_undefined_def config_choice_def)
  from request_settings_all_or_nothing [of sample_props "sample_state\<lparr>overrideEnabled := False\<rparr>" sample_input
         "chatRequest sample_props (sample_state\<lparr>overrideEnabled := False\<rparr>) ''hi'' []"] b
  have r2: "request_settings (chatRequest sample_props (sample_state\<lparr>overrideEnabled := False\<rparr>) ''hi'' [])
       = (Some ''c1'', Some ''p1'', Some ''m1'', 1, 100, kb_off, 5, 400)"
    by (simp add: bundle_settings_def sessionBundle_def sample_props_def or_undefined_def config_choice_def)
  from a c r1 r2 show ?thesis by simp
qed

lemma handleSend_started:
  "starts_exchange props st inp \<Longrightarrow>
   handleSend props st inp =
     (Some (chatRequest props st (trim (si_value inp)) (si_apiAttachments inp)),
      send_finish props inp
        (handleStreamEvents props (currentRound st) (si_events inp) (send_begin props st inp)))"
  by (simp add: starts_exchange_def handleSend_def)

lemma send_finish_fields:
  "overrideEnabled (send_finish props inp s) = False"
  "isLoading (send_finish props inp s) = False"
  "streamingResponses (send_finish props inp s) = []"
  by (simp_all add: send_finish_def Let_def split: StreamEnd.splits)




section \<open>What stays displayed\<close>

lemma update_fresh: "map_of al k = None \<Longrightarrow> AList.update k v al = al @ [(k, v)]"
  by (induction al) (auto split: if_splits)

lemma update_member:
  "(k', r) \<in> set al \<Longrightarrow>
   (k', r) \<in> set (AList.update k v al) \<or> (k' = k \<and> map_of al k = Some r \<and> (k, v) \<in> set (AList.update k v al))"
  by (induction al) (auto split: if_splits)

lemma delete_member: "(k', r) \<in> set al \<Longrightarrow> k' \<noteq> k \<Longrightarrow> (k', r) \<in> set (AList.delete k al)"
  by (induction al) auto

lemma messages_step:
  "prefix (messages st) (messages (handleStreamEvent props rnd clk ev st))"
  by (cases ev) (auto simp: handleStreamEvent_def Let_def split: option.splits)

lemma messages_steps:
  "prefix (messages st) (messages (handleStreamEvents props rnd evs st))"
proof (induction evs arbitrary: st)
  case Nil
  then show ?case by simp
next
  case (Cons a evs)
  obtain clk ev where a: "a = (clk, ev)" by (cases a)
  have "prefix (messages st) (messages (handleStreamEvent props rnd clk ev st))"
    by (rule messages_step)
  also have "prefix \<dots> (messages (handleStreamEvents props rnd evs (handleStreamEvent props rnd clk ev st)))"
    by (rule Cons.IH)
  finally show ?case by (simp add: a)
qed

lemma messages_handleSend:
  "prefix (messages st) (messages (snd (handleSend props st inp)))"
proof -
  have b: "prefix (messages st) (messages (send_begin props st inp))"
    by (simp add: send_begin_def Let_def)
  have f: "prefix (messages s) (messages (send_finish props inp s))" for s
    by (simp add: send_finish_def Let_def split: StreamEnd.splits)
  have "prefix (messages st)
          (messages (send_finish props inp
             (handleStreamEvents props (currentRound st) (si_events inp) (send_begin props st inp))))"
    using b messages_steps f by (meson prefix_order.trans)
  then show ?thesis
    by (simp add: handleSend_def)
qed

lemma distinct_step:
  "distinct (map fst (streamingResponses st))
   \<Longrightarrow> distinct (map fst (streamingResponses (handleStreamEvent props rnd clk ev st)))"
  by (cases ev) (auto simp: handleStreamEvent_def Let_def distinct_update distinct_delete split: option.splits)

lemma msg_text_visible: "m \<in> set (messages st) \<Longrightarrow> rm_content m \<in> set (visible_texts st)"
  by (simp add: visible_texts_def)

lemma entry_text_visible: "(k, r) \<in> set (streamingResponses st) \<Longrightarrow> sr_content r \<in> set (visible_texts st)"
  by (force simp: visible_texts_def)

lemma visible_cases:
  "t \<in> set (visible_texts st) \<Longrightarrow>
   (\<exists>m \<in> set (messages st). t = rm_content m) \<or> (\<exists>k r. (k, r) \<in> set (streamingResponses st) \<and> t = sr_content r)"
  by (fastforce simp: visible_texts_def)

lemma message_kept:
  assumes "m \<in> set (messages st)"
  shows "\<exists>t' \<in> set (visible_texts (handleStreamEvent props rnd clk ev st)). prefix (rm_content m) t'"
proof -
  from messages_step [of st props rnd clk ev] assms
  have "m \<in> set (messages (handleStreamEvent props rnd clk ev st))"
    by (auto simp: prefix_def)
  then show ?thesis
    by (blast intro: msg_text_visible)
qed

lemma entry_kept:
  assumes d: "distinct (map fst (streamingResponses st))"
    and fresh: "\<forall>cid. is_start_for cid ev \<longrightarrow> map_of (streamingResponses st) cid = None"
    and mem: "(k, r) \<in> set (streamingResponses st)"
  shows "\<exists>t' \<in> set (visible_texts (handleStreamEvent props rnd clk ev st)). prefix (sr_content r) t'"
proof (cases ev)
  case (coach_start c n a)
  with fresh have "map_of (streamingResponses st) c = None" by simp
  with coach_start mem have "(k, r) \<in> set (streamingResponses (handleStreamEvent props rnd clk ev st))"
    by (simp add: handleStreamEvent_def update_fresh)
  then show ?thesis by (blast intro: entry_text_visible)
next
  case (moderator_start c n a t)
  with fresh have "map_of (streamingResponses st) c = None" by simp
  with moderator_start mem have "(k, r) \<in> set (streamingResponses (handleStreamEvent props rnd clk ev st))"
    by (simp add: handleStreamEvent_def update_fresh)
  then show ?thesis by (blast intro: entry_text_visible)
next
  case (content c frag)
  let ?v = "content_entry (map_of (streamingResponses st) c) frag"
  from update_member [OF mem, of c ?v]
  consider "(k, r) \<in> set (AList.update c ?v (streamingResponses st))"
    | "k = c" "map_of (streamingResponses st) c = Some r" "(c, ?v) \<in> set (AList.update c ?v (streamingResponses st))"
    by blast
  then show ?thesis
  proof cases
    case 1
    with content have "(k, r) \<in> set (streamingResponses (handleStreamEvent props rnd clk ev st))"
      by (simp add: handleStreamEvent_def)
    then show ?thesis by (blast intro: entry_text_visible)
  next
    case 2
    with content have "(c, ?v) \<in> set (streamingResponses (handleStreamEvent props rnd clk ev st))"
      by (simp add: handleStreamEvent_def)
    moreover from 2 have "prefix (sr_content r) (sr_content ?v)"
      by (simp add: content_entry_def)
    ultimately show ?thesis by (blast intro: entry_text_visible)
  qed
next
  case (coach_end c)
  show ?thesis
  proof (cases "k = c")
    case True
    with d mem have "map_of (streamingResponses st) c = Some r" by simp
    from end_records_entry [OF _ this, of ev props rnd clk] coach_end
    obtain m where "messages (handleStreamEvent props rnd clk ev st) = messages st @ [m]"
      "rm_content m = sr_content r" by auto
    then have "sr_content r \<in> set (visible_texts (handleStreamEvent props rnd clk ev st))"
      by (simp add: visible_texts_def)
    then show ?thesis by blast
  next
    case False
    with coach_end mem have "(k, r) \<in> set (streamingResponses (handleStreamEvent props rnd clk ev st))"
      by (auto simp: handleStreamEvent_def Let_def delete_member split: option.splits)
    then show ?thesis by (blast intro: entry_text_visible)
  qed
next
  case (moderator_end c t)
  show ?thesis
  proof (cases "k = c")
    case True
    with d mem have "map_of (streamingResponses st) c = Some r" by simp
    from end_records_entry [OF _ this, of ev props rnd clk] moderator_end
    obtain m where "messages (handleStreamEvent props rnd clk ev st) = messages st @ [m]"
      "rm_content m = sr_content r" by auto
    then have "sr_content r \<in> set (visible_texts (handleStreamEvent props rnd clk ev st))"
      by (simp add: visible_texts_def)
    then show ?thesis by blast
  next
    case False
    with moderator_end mem have "(k, r) \<in> set (streamingResponses (handleStreamEvent props rnd clk ev st))"
      by (auto simp: handleStreamEvent_def Let_def delete_member split: option.splits)
    then show ?thesis by (blast intro: entry_text_visible)
  qed
next
  case (round_start n)
  with mem have "(k, r) \<in> set (streamingResponses (handleStreamEvent props rnd clk ev st))"
    by (simp add: handleStreamEvent_def)
  then show ?thesis by (blast intro: entry_text_visible)
next
  case (round_end n)
  with mem have "(k, r) \<in> set (streamingResponses (handleStreamEvent props rnd clk ev st))"
    by (simp add: handleStreamEvent_def)
  then show ?thesis by (blast intro: entry_text_visible)
next
  case done_ev
  with mem have "(k, r) \<in> set (streamingResponses (handleStreamEvent props rnd clk ev st))"
    by (simp add: handleStreamEvent_def)
  then show ?thesis by (blast intro: entry_text_visible)
next
  case (error c msg)
  with mem have "(k, r) \<in> set (streamingResponses (handleStreamEvent props rnd clk ev st))"
    by (simp add: handleStreamEvent_def)
  then show ?thesis by (blast intro: entry_text_visible)
qed

lemma visible_step:
  assumes "distinct (map fst (streamingResponses st))"
    and "\<forall>cid. is_start_for cid ev \<longrightarrow> map_of (streamingResponses st) cid = None"
    and "t \<in> set (visible_texts st)"
  shows "\<exists>t' \<in> set (visible_texts (handleStreamEvent props rnd clk ev st)). prefix t t'"
  using visible_cases [OF assms(3)] message_kept entry_kept [OF assms(1,2)] by blast


lemma distinct_steps:
  "distinct (map fst (streamingResponses st))
   \<Longrightarrow> distinct (map fst (streamingResponses (handleStreamEvents props rnd evs st)))"
  by (induction evs arbitrary: st) (auto simp: distinct_step)

text \<open>
  Text in flight is dropped when the stream throws: after \<open>coach_start\<close> and one
  \<open>content\<close> event the fragment \<open>Hel\<close> is displayed; the stream then throws, and when
  \<open>handleSend\<close> has returned the conversation shows the user message and the error
  message only.
\<close>

theorem partial_output_discarded_on_error:
  "starts_exchange sample_props sample_state sample_input
   \<and> visible_texts (handleStreamEvents sample_props (currentRound sample_state)
        (si_events sample_input) (send_begin sample_props sample_state sample_input))
       = [''hi'', ''Hel'']
   \<and> visible_texts (snd (handleSend sample_props sample_state sample_input)) = [''hi'', ''boom'']
   \<and> \<not> (\<exists>t \<in> set (visible_texts (snd (handleSend sample_props sample_state sample_input))).
            sublist ''Hel'' t)"
proof -
  have t: "trim '' hi '' = ''hi''"
    by (simp add: trim_def js_whitespace_def)
  have s1: "starts_exchange sample_props sample_state sample_input"
    by (simp add: starts_exchange_def sample_input_def t sample_state_def sample_props_def
          sample_session_def session_id_ok_def)
  have mid: "visible_texts (handleStreamEvents sample_props (currentRound sample_state)
        (si_events sample_input) (send_begin sample_props sample_state sample_input))
       = [''hi'', ''Hel'']"
    by (simp add: sample_input_def send_begin_def t sample_state_def visible_texts_def
          handleStreamEvent_def plain_message_def start_entry_def content_entry_def)
  have fin: "visible_texts (snd (handleSend sample_props sample_state sample_input)) = [''hi'', ''boom'']"
    unfolding handleSend_started [OF s1]
    by (simp add: sample_input_def send_begin_def send_finish_def t sample_state_def visible_texts_def
          handleStreamEvent_def plain_message_def start_entry_def content_entry_def or_string_def)
  have "\<not> sublist ''Hel'' ''hi''" "\<not> sublist ''Hel'' ''boom''"
    by (simp_all add: sublist_Cons_right)
  with s1 mid fin show ?thesis by simp
qed

text \<open>
  Claim C5, as the code has it. While the events of an exchange are handled, displayed
  text is extended or moved into the messages, never removed, unless a start event
  arrives for a participant whose entry is still in flight: every text displayed before
  an event is a prefix of a text displayed after it (the keys of the streaming entries
  are distinct throughout an exchange). The messages recorded before a call of
  \<open>handleSend\<close> are still there, in order, when it returns. When an exchange has ended,
  by a closed stream or by an error, the streaming entries are cleared and only the
  recorded messages are displayed: the text of a turn whose end event was not handled
  is no longer shown.
\<close>

theorem displayed_text_kept:
  "(distinct (map fst (streamingResponses st))
      \<and> (\<forall>cid. is_start_for cid ev \<longrightarrow> map_of (streamingResponses st) cid = None)
     \<longrightarrow> (\<forall>t \<in> set (visible_texts st).
            \<exists>t' \<in> set (visible_texts (handleStreamEvent props rnd clk ev st)). prefix t t'))
   \<and> distinct (map fst (streamingResponses
         (handleStreamEvents props rnd evs (send_begin props st inp))))
   \<and> prefix (messages st) (messages (snd (handleSend props st inp)))
   \<and> (starts_exchange props st inp
      \<longrightarrow> visible_texts (snd (handleSend props st inp))
          = map rm_content (messages (snd (handleSend props st inp))))"
proof (intro conjI impI ballI)
  fix t
  assume "distinct (map fst (streamingResponses st))
      \<and> (\<forall>cid. is_start_for cid ev \<longrightarrow> map_of (streamingResponses st) cid = None)"
    and "t \<in> set (visible_texts st)"
  then show "\<exists>t' \<in> set (visible_texts (handleStreamEvent props rnd clk ev st)). prefix t t'"
    using visible_step by blast
next
  have "distinct (map fst (streamingResponses (send_begin props st inp)))"
    by (simp add: send_begin_def Let_def)
  then show "distinct (map fst (streamingResponses
         (handleStreamEvents props rnd evs (send_begin props st inp))))"
    by (rule distinct_steps)
next
  show "prefix (messages st) (messages (snd (handleSend props st inp)))"
    by (rule messages_handleSend)
next
  assume "starts_exchange props st inp"
  then show "visible_texts (snd (handleSend props st inp))
          = map rm_content (messages (snd (handleSend props st inp)))"
    by (simp add: handleSend_started visible_texts_def send_finish_fields)
qed

theorem displayed_text_kept_witness:
  "distinct (map fst (streamingResponses
      (handleStreamEvents sample_props 0 (si_events sample_input)
         (send_begin sample_props sample_state sample_input))))
   \<and> ''Hel'' \<in> set (visible_texts
      (handleStreamEvents sample_props 0 (si_events sample_input)
         (send_begin sample_props sample_state sample_input)))
   \<and> (\<exists>t' \<in> set (visible_texts
         (handleStreamEvent sample_props 0 sample_clock (content ''a'' ''lo'')
            (handleStreamEvents sample_props 0 (si_events sample_input)
               (send_begin sample_props sample_state sample_input)))). prefix ''Hel'' t')
   \<and> starts_exchange sample_props sample_state sample_input
   \<and> visible_texts (snd (handleSend sample_props sample_state sample_input))
       = map rm_content (messages (snd (handleSend sample_props sample_state sample_input)))"
proof -
  let ?mid = "handleStreamEvents sample_props 0 (si_events sample_input)
         (send_begin sample_props sample_state sample_input)"
  have t: "trim '' hi '' = ''hi''"
    by (simp add: trim_def js_whitespace_def)
  have s1: "starts_exchange sample_props sample_state sample_input"
    by (simp add: starts_exchange_def sample_input_def t sample_state_def sample_props_def
          sample_session_def session_id_ok_def)
  have d: "distinct (map fst (streamingResponses ?mid))"
    by (simp add: sample_input_def send_begin_def sample_state_def handleStreamEvent_def)
  have v: "''Hel'' \<in> set (visible_texts ?mid)"
    by (simp add: sample_input_def send_begin_def t sample_state_def visible_texts_def
          handleStreamEvent_def plain_message_def start_entry_def content_entry_def)
  have f: "\<forall>cid. is_start_for cid (content ''a'' ''lo'') \<longrightarrow> map_of (streamingResponses ?mid) cid = None"
    by simp
  from displayed_text_kept [of ?mid "content ''a'' ''lo''" sample_props 0 sample_clock
         "si_events sample_input" sample_input] d f v
  have k: "\<exists>t' \<in> set (visible_texts
         (handleStreamEvent sample_props 0 sample_clock (content ''a'' ''lo'') ?mid)). prefix ''Hel'' t'"
    by blast
  from displayed_text_kept [of sample_state ev sample_props 0 sample_clock
         "si_events sample_input" sample_input for ev] s1
  have e: "visible_texts (snd (handleSend sample_props sample_state sample_input))
       = map rm_content (messages (snd (handleSend sample_props sample_state sample_input)))"
    by blast
  from d v k s1 e show ?thesis by blast
qed

section \<open>Properties of the round orchestrator\<close>

lemma emitted_append: "emitted (xs @ ys) = emitted xs @ emitted ys"
  by (induction xs rule: emitted.induct) auto

lemma emitted_map_Emit: "emitted (map Emit evs) = evs"
  by (induction evs) auto

lemma emitted_fetch_actions: "emitted (fetch_actions rq pos) = []"
  by (simp add: fetch_actions_def)

lemma emitted_coach_turn:
  "emitted (coach_turn E rq sty r c) = coach_turn_executor c (generation E r (cb_id c))"
  by (simp add: coach_turn_def emitted_append emitted_fetch_actions emitted_map_Emit)

lemma emitted_round_turns:
  "emitted (round_turns E rq sty r active)
   = concat (map (\<lambda>c. coach_turn_executor c (generation E r (cb_id c))) active)"
  by (induction active) (auto simp: round_turns_def emitted_append emitted_coach_turn)

lemma erase_fetch_actions: "map erase_style (fetch_actions rq pos) = fetch_actions rq pos"
  by (simp add: fetch_actions_def)

lemma fetch_actions_style: "fetch_actions (rq\<lparr>rq_debate_style := s\<rparr>) pos = fetch_actions rq pos"
  by (simp add: fetch_actions_def)

lemma erase_coach_turn:
  "map erase_style (coach_turn E (rq\<lparr>rq_debate_style := s\<rparr>) sty r c)
   = map erase_style (coach_turn E rq None r c)"
  by (simp add: coach_turn_def fetch_actions_style)

lemma erase_round_turns:
  "map erase_style (round_turns E (rq\<lparr>rq_debate_style := s\<rparr>) sty r active)
   = map erase_style (round_turns E rq None r active)"
  by (induction active) (simp_all add: round_turns_def erase_coach_turn)

lemma erase_free_rounds:
  "map erase_style (free_rounds E (rq\<lparr>rq_debate_style := s\<rparr>) n r active)
   = map erase_style (free_rounds E (rq\<lparr>rq_debate_style := None\<rparr>) n r active)"
proof (induction n arbitrary: r active)
  case 0
  then show ?case by simp
next
  case (Suc n)
  have "map erase_style (round_turns E (rq\<lparr>rq_debate_style := s\<rparr>) s r active)
        = map erase_style (round_turns E (rq\<lparr>rq_debate_style := None\<rparr>) None r active)"
    by (simp add: erase_round_turns)
  with Suc show ?case
    by (simp add: fetch_actions_style)
qed

lemma emitted_erase_style: "emitted (map erase_style acts) = emitted acts"
  by (induction acts rule: emitted.induct) auto

lemma round_budget_style: "round_budget E (rq\<lparr>rq_debate_style := s\<rparr>) = round_budget E rq"
  by (simp add: round_budget_def)

lemma erase_orchestrate_free:
  assumes "rs_discussion_mode sess = free"
  shows "map_sum id (map erase_style) (orchestrate E sess (rq\<lparr>rq_debate_style := s\<rparr>))
         = map_sum id (map erase_style) (orchestrate E sess (rq\<lparr>rq_debate_style := None\<rparr>))"
  using assms erase_free_rounds [where E = E and rq = rq and s = s]
  by (simp add: orchestrate_def Let_def fetch_actions_style round_budget_style)

lemma assemble_style_round_turns:
  "Assemble role p r' s \<in> set (round_turns E rq sty r active) \<Longrightarrow> s = sty"
  by (induction active) (auto simp: round_turns_def coach_turn_def fetch_actions_def split: if_splits)

lemma assemble_style_free_rounds:
  "Assemble role p r' s \<in> set (free_rounds E rq n r active) \<Longrightarrow> s = rq_debate_style rq"
  by (induction n arbitrary: r active)
     (auto simp: fetch_actions_def dest: assemble_style_round_turns split: if_splits)

text \<open>
  Claim C7. Two free exchanges that differ in nothing but the debate style of the request
  emit the same events in the same order, and their runs are the same action for action
  once the style handed to the Context Assembler is taken out; the style of the request is
  what every assembly of a free exchange receives. On the client, a request carries the
  debate style of the component when the session is free, and none otherwise.
\<close>

theorem debate_style_is_framing_only:
  "(rs_discussion_mode sess = free \<longrightarrow>
      map_sum id emitted (orchestrate E sess (rq\<lparr>rq_debate_style := s1\<rparr>))
        = map_sum id emitted (orchestrate E sess (rq\<lparr>rq_debate_style := s2\<rparr>))
      \<and> map_sum id (map erase_style) (orchestrate E sess (rq\<lparr>rq_debate_style := s1\<rparr>))
        = map_sum id (map erase_style) (orchestrate E sess (rq\<lparr>rq_debate_style := s2\<rparr>))
      \<and> (\<forall>acts role p r s. orchestrate E sess rq = Inr acts \<and> Assemble role p r s \<in> set acts
            \<longrightarrow> s = rq_debate_style rq))
   \<and> (\<forall>rq'. fst (handleSend props st inp) = Some rq' \<longrightarrow>
         rq_debate_style rq'
           = (if rs_discussion_mode (session props) = free then Some (debateStyle st) else None))"
proof (intro conjI impI allI)
  assume f: "rs_discussion_mode sess = free"
  show e: "map_sum id (map erase_style) (orchestrate E sess (rq\<lparr>rq_debate_style := s1\<rparr>))
        = map_sum id (map erase_style) (orchestrate E sess (rq\<lparr>rq_debate_style := s2\<rparr>))"
    using erase_orchestrate_free [OF f, where E = E and rq = rq and s = s1]
      erase_orchestrate_free [OF f, where E = E and rq = rq and s = s2]
    by simp
  have "map_sum id emitted (map_sum id (map erase_style) x) = map_sum id emitted x"
    for x :: "ConfigError + Action list"
    by (cases x) (simp_all add: emitted_erase_style)
  with e show "map_sum id emitted (orchestrate E sess (rq\<lparr>rq_debate_style := s1\<rparr>))
        = map_sum id emitted (orchestrate E sess (rq\<lparr>rq_debate_style := s2\<rparr>))"
    by metis
next
  fix acts role p r s
  assume f: "rs_discussion_mode sess = free"
    and "orchestrate E sess rq = Inr acts \<and> Assemble role p r s \<in> set acts"
  then show "s = rq_debate_style rq"
    by (auto simp: orchestrate_def Let_def fetch_actions_def
             dest: assemble_style_free_rounds split: if_splits)
next
  fix rq'
  assume "fst (handleSend props st inp) = Some rq'"
  then show "rq_debate_style rq'
           = (if rs_discussion_mode (session props) = free then Some (debateStyle st) else None)"
    by (auto simp: handleSend_def chatRequest_def split: if_splits)
qed


theorem debate_style_is_framing_only_witness:
  "rs_discussion_mode sample_session = free
   \<and> map_sum id emitted
        (orchestrate sample_collaborators sample_session (sample_request\<lparr>rq_debate_style := Some converge\<rparr>))
     = map_sum id emitted
        (orchestrate sample_collaborators sample_session (sample_request\<lparr>rq_debate_style := Some clash\<rparr>))
   \<and> (\<exists>rq'. fst (handleSend sample_props sample_state sample_input) = Some rq'
            \<and> rq_debate_style rq' = Some clash)
   \<and> (\<exists>rq'. fst (handleSend (sample_props\<lparr>session := sample_moderated_session\<rparr>) sample_state
                  sample_input) = Some rq'
            \<and> rq_debate_style rq' = None)"
proof -
  have t: "trim '' hi '' = ''hi''"
    by (simp add: trim_def js_whitespace_def)
  have f: "rs_discussion_mode sample_session = free"
    by (simp add: sample_session_def)
  have s1: "starts_exchange sample_props sample_state sample_input"
    by (simp add: starts_exchange_def sample_input_def t sample_state_def sample_props_def
          sample_session_def session_id_ok_def)
  have s2: "starts_exchange (sample_props\<lparr>session := sample_moderated_session\<rparr>) sample_state sample_input"
    by (simp add: starts_exchange_def sample_input_def t sample_state_def
          sample_moderated_session_def session_id_ok_def)
  have m: "rs_discussion_mode (session (sample_props\<lparr>session := sample_moderated_session\<rparr>)) \<noteq> free"
    by (simp add: sample_moderated_session_def)
  have pf: "rs_discussion_mode (session sample_props) = free"
    by (simp add: sample_props_def f)
  have d: "debateStyle sample_state = clash"
    by (simp add: sample_state_def)
  note a = debate_style_is_framing_only [where sess = sample_session and E = sample_collaborators
             and rq = sample_request and ?s1.0 = "Some converge" and ?s2.0 = "Some clash"
             and props = sample_props and st = sample_state and inp = sample_input]
  note b = debate_style_is_framing_only [where sess = sample_session and E = sample_collaborators
             and rq = sample_request and ?s1.0 = "Some converge" and ?s2.0 = "Some clash"
             and props = "sample_props\<lparr>session := sample_moderated_session\<rparr>"
             and st = sample_state and inp = sample_input]
  from a f have e: "map_sum id emitted
        (orchestrate sample_collaborators sample_session (sample_request\<lparr>rq_debate_style := Some converge\<rparr>))
     = map_sum id emitted
        (orchestrate sample_collaborators sample_session (sample_request\<lparr>rq_debate_style := Some clash\<rparr>))"
    by blast
  from a pf d handleSend_started [OF s1]
  have c1: "\<exists>rq'. fst (handleSend sample_props sample_state sample_input) = Some rq'
            \<and> rq_debate_style rq' = Some clash"
    by simp
  from b m handleSend_started [OF s2]
  have c2: "\<exists>rq'. fst (handleSend (sample_props\<lparr>session := sample_moderated_session\<rparr>) sample_state
                  sample_input) = Some rq' \<and> rq_debate_style rq' = None"
    by simp
  from f e c1 c2 show ?thesis by blast
qed

lemma knowledge_calls_append: "knowledge_calls (xs @ ys) = knowledge_calls xs + knowledge_calls ys"
  by (simp add: knowledge_calls_def)

lemma knowledge_calls_map_Emit: "knowledge_calls (map Emit evs) = 0"
  by (induction evs) (auto simp: knowledge_calls_def)

lemma coach_starts_executor:
  "length (filter is_coach_start (coach_turn_executor c out)) = 1"
  by (cases out) (auto simp: filter_empty_conv)

lemma round_starts_executor:
  "filter is_round_start (coach_turn_executor c out) = []"
  by (cases out) (auto simp: filter_empty_conv)

lemma coach_turn_kb_coach:
  "rq_kb_timing rq = kb_coach \<Longrightarrow>
   coach_turn E rq sty r c =
     Fetch (rq_content rq) (rq_kb_top_k rq) (rq_kb_max_candidates rq)
       # Assemble coach_role (cb_id c) r sty
       # map Emit (coach_turn_executor c (generation E r (cb_id c)))"
  by (simp add: coach_turn_def fetch_actions_def)

lemma knowledge_calls_round_turns:
  "rq_kb_timing rq = kb_coach \<Longrightarrow> knowledge_calls (round_turns E rq sty r active) = length active"
  by (induction active)
     (simp_all add: round_turns_def coach_turn_kb_coach knowledge_calls_append,
      simp_all add: knowledge_calls_def knowledge_calls_map_Emit [unfolded knowledge_calls_def])

lemma coach_turns_started_round_turns:
  "coach_turns_started (round_turns E rq sty r active) = length active"
  by (induction active)
     (simp_all add: coach_turns_started_def emitted_round_turns coach_starts_executor)

lemma rounds_run_round_turns:
  "rounds_run (round_turns E rq sty r active) = 0"
  by (induction active)
     (simp_all add: rounds_run_def emitted_round_turns round_starts_executor)

lemma fetched_map_Emit:
  "fetch_before_each_coach_turn (map Emit evs @ acts) = fetch_before_each_coach_turn acts"
  by (induction evs) auto

lemma fetched_round_turns:
  "rq_kb_timing rq = kb_coach \<Longrightarrow>
   fetch_before_each_coach_turn (round_turns E rq sty r active @ acts) = fetch_before_each_coach_turn acts"
  by (induction active) (simp_all add: round_turns_def coach_turn_kb_coach fetched_map_Emit)

lemma survivors_none_failed:
  "\<forall>c \<in> set active. \<not> turn_failed (generation E r (cb_id c)) \<Longrightarrow> survivors E r active = active"
  by (simp add: survivors_def)


lemma fetch_actions_kb_coach:
  "rq_kb_timing rq = kb_coach \<Longrightarrow> fetch_actions rq before_round_one = []"
  "rq_kb_timing rq = kb_coach \<Longrightarrow> fetch_actions rq (at_round_start r) = []"
  "rq_kb_timing rq = kb_coach \<Longrightarrow> fetch_actions rq before_moderator_phase = []"
  by (simp_all add: fetch_actions_def)

lemma free_rounds_kb_coach:
  assumes "rq_kb_timing rq = kb_coach"
  shows "knowledge_calls (free_rounds E rq n r active) = coach_turns_started (free_rounds E rq n r active)
         \<and> fetch_before_each_coach_turn (free_rounds E rq n r active)"
proof (induction n arbitrary: r active)
  case 0
  show ?case by (simp add: knowledge_calls_def coach_turns_started_def)
next
  case (Suc n)
  have k: "knowledge_calls (round_turns E rq (rq_debate_style rq) r active) = length active"
    using assms by (rule knowledge_calls_round_turns)
  have c: "coach_turns_started (round_turns E rq (rq_debate_style rq) r active) = length active"
    by (rule coach_turns_started_round_turns)
  have split_k: "knowledge_calls (Emit ev # acts) = knowledge_calls acts" for ev acts
    by (simp add: knowledge_calls_def)
  have split_c: "coach_turns_started (xs @ ys) = coach_turns_started xs + coach_turns_started ys" for xs ys
    by (simp add: coach_turns_started_def emitted_append)
  have c1: "coach_turns_started [Emit (error None m)] = 0" for m
    by (simp add: coach_turns_started_def)
  have c2: "coach_turns_started (Emit (round_end r) # acts) = coach_turns_started acts" for acts
    by (simp add: coach_turns_started_def)
  have c3: "coach_turns_started (Emit (round_start r) # acts) = coach_turns_started acts" for acts
    by (simp add: coach_turns_started_def)
  have k1: "knowledge_calls [] = 0"
    by (simp add: knowledge_calls_def)
  from Suc [of "Suc r" "survivors E r active"] k c show ?case
    using assms
    by (simp add: fetch_actions_kb_coach split_k split_c c1 c2 c3 k1 knowledge_calls_append
          fetched_round_turns)
qed

lemma free_rounds_no_failure:
  assumes "rq_kb_timing rq = kb_coach" and "\<forall>r p. \<not> turn_failed (generation E r p)" and "active \<noteq> []"
  shows "knowledge_calls (free_rounds E rq n r active) = length active * n
         \<and> rounds_run (free_rounds E rq n r active) = n"
proof (induction n arbitrary: r)
  case 0
  show ?case by (simp add: knowledge_calls_def rounds_run_def)
next
  case (Suc n)
  have s: "survivors E r active = active"
    using assms(2) by (simp add: survivors_none_failed)
  have k: "knowledge_calls (round_turns E rq (rq_debate_style rq) r active) = length active"
    using assms(1) by (rule knowledge_calls_round_turns)
  have rr: "rounds_run (round_turns E rq (rq_debate_style rq) r active) = 0"
    by (rule rounds_run_round_turns)
  have split_k: "knowledge_calls (Emit ev # acts) = knowledge_calls acts" for ev acts
    by (simp add: knowledge_calls_def)
  have split_r: "rounds_run (xs @ ys) = rounds_run xs + rounds_run ys" for xs ys
    by (simp add: rounds_run_def emitted_append)
  have r1: "rounds_run (Emit (round_start r) # acts) = Suc (rounds_run acts)" for acts
    by (simp add: rounds_run_def)
  have r2: "rounds_run (Emit (round_end r) # acts) = rounds_run acts" for acts
    by (simp add: rounds_run_def)
  from Suc [of "Suc r"] k rr s assms(1,3) show ?case
    by (simp add: fetch_actions_kb_coach split_k split_r r1 r2 knowledge_calls_append)
qed

lemma moderated_kb_coach:
  assumes "rq_kb_timing rq = kb_coach"
  shows "knowledge_calls (moderated_exchange E rq roster md) = length roster
       \<and> coach_turns_started (moderated_exchange E rq roster md) = length roster
       \<and> fetch_before_each_coach_turn (moderated_exchange E rq roster md)
       \<and> rounds_run (moderated_exchange E rq roster md) = 1"
proof -
  have k: "knowledge_calls (round_turns E rq None 1 roster) = length roster"
    using assms by (rule knowledge_calls_round_turns)
  have c: "coach_turns_started (round_turns E rq None 1 roster) = length roster"
    by (rule coach_turns_started_round_turns)
  have rr: "rounds_run (round_turns E rq None 1 roster) = 0"
    by (rule rounds_run_round_turns)
  have mod_starts: "filter is_coach_start (moderator_turn_executor md t out) = []" for t out
    by (cases out) (auto simp: filter_empty_conv)
  have mod_rounds: "filter is_round_start (moderator_turn_executor md t out) = []" for t out
    by (cases out) (auto simp: filter_empty_conv)
  have a: "knowledge_calls (moderated_exchange E rq roster md) = length roster"
    using assms k [unfolded knowledge_calls_def] knowledge_calls_map_Emit [unfolded knowledge_calls_def]
    by (simp add: moderated_exchange_def fetch_actions_kb_coach knowledge_calls_def)
  have b: "coach_turns_started (moderated_exchange E rq roster md) = length roster"
    using c [unfolded coach_turns_started_def]
    by (simp add: moderated_exchange_def coach_turns_started_def emitted_append emitted_fetch_actions
          emitted_map_Emit mod_starts)
  have d: "fetch_before_each_coach_turn (moderated_exchange E rq roster md)"
    using assms fetched_map_Emit [of _ "[Emit done_ev]"]
    by (simp add: moderated_exchange_def fetch_actions_kb_coach fetched_round_turns)
  have e: "rounds_run (moderated_exchange E rq roster md) = 1"
    using rr [unfolded rounds_run_def]
    by (simp add: moderated_exchange_def rounds_run_def emitted_append emitted_fetch_actions
          emitted_map_Emit mod_rounds)
  from a b d e show ?thesis by simp
qed


lemma sample_free_run:
  "orchestrate sample_collaborators sample_session sample_request =
     Inr [Emit (round_start 1), Fetch ''hi'' 3 100, Assemble coach_role ''a'' 1 (Some clash),
          Emit (coach_start ''a'' ''Ann'' None), Emit (content ''a'' ''x''),
          Emit (error (Some ''a'') ''timeout''), Fetch ''hi'' 3 100,
          Assemble coach_role ''b'' 1 (Some clash), Emit (coach_start ''b'' ''Bob'' None),
          Emit (content ''b'' ''ok''), Emit (coach_end ''b''), Emit (round_end 1),
          Emit (round_start 2), Fetch ''hi'' 3 100, Assemble coach_role ''b'' 2 (Some clash),
          Emit (coach_start ''b'' ''Bob'' None), Emit (content ''b'' ''ok''),
          Emit (coach_end ''b''), Emit (round_end 2), Emit done_ev]"
  by code_simp

text \<open>
  A failed turn lowers the number of knowledge calls: with timing \<open>coach\<close>, a roster of
  two and two rounds run, coach \<open>a\<close> fails in round one and is left out of round two, so
  the Knowledge Capability is called three times, not four.
\<close>

theorem knowledge_calls_fewer_after_failure:
  "\<exists>acts. orchestrate sample_collaborators sample_session sample_request = Inr acts
     \<and> rq_kb_timing sample_request = kb_coach
     \<and> length (case rs_coaches sample_session of None \<Rightarrow> [] | Some cs \<Rightarrow> cs) = 2
     \<and> rounds_run acts = 2
     \<and> knowledge_calls acts = 3"
proof -
  note run = sample_free_run
  have kb: "rq_kb_timing sample_request = kb_coach"
    by (simp add: sample_request_def chatRequest_def effectiveKbTiming_def sample_state_def)
  have len: "length (case rs_coaches sample_session of None \<Rightarrow> [] | Some cs \<Rightarrow> cs) = 2"
    by (simp add: sample_session_def)
  show ?thesis
    unfolding run using kb len by (simp add: rounds_run_def knowledge_calls_def)
qed

text \<open>
  Claim C6, as the orchestrator has it. With timing \<open>coach\<close> the Knowledge Capability is
  called once immediately before every coach turn that is run, and nowhere else: the
  number of calls is the number of coach turns started. When no turn fails, that is the
  size of the roster times the number of rounds run.
\<close>

theorem knowledge_call_before_each_coach_turn:
  "rq_kb_timing rq = kb_coach \<and> orchestrate E sess rq = Inr acts \<longrightarrow>
     knowledge_calls acts = coach_turns_started acts
     \<and> fetch_before_each_coach_turn acts
     \<and> ((\<forall>r p. \<not> turn_failed (generation E r p)) \<and> rs_coaches sess = Some roster
        \<longrightarrow> knowledge_calls acts = length roster * rounds_run acts)"
proof (intro impI, elim conjE)
  assume kb: "rq_kb_timing rq = kb_coach" and run: "orchestrate E sess rq = Inr acts"
  show "knowledge_calls acts = coach_turns_started acts
     \<and> fetch_before_each_coach_turn acts
     \<and> ((\<forall>r p. \<not> turn_failed (generation E r p)) \<and> rs_coaches sess = Some roster
        \<longrightarrow> knowledge_calls acts = length roster * rounds_run acts)"
  proof (cases "rs_discussion_mode sess")
    case free
    obtain cs where cs: "rs_coaches sess = Some cs" "cs \<noteq> []"
      and acts: "acts = free_rounds E rq (round_budget E rq) 1 cs"
      using run free kb
      by (auto simp: orchestrate_def Let_def fetch_actions_kb_coach split: option.splits if_splits)
    from free_rounds_kb_coach [OF kb, of E "round_budget E rq" 1 cs]
         free_rounds_no_failure [OF kb _ cs(2), of E "round_budget E rq" 1]
    show ?thesis
      using cs acts by auto
  next
    case moderated
    obtain cs md where cs: "rs_coaches sess = Some cs"
      and acts: "acts = moderated_exchange E rq cs md"
      using run moderated kb
      by (auto simp: orchestrate_def Let_def fetch_actions_kb_coach split: option.splits if_splits)
    from moderated_kb_coach [OF kb, of E cs md]
    show ?thesis
      using cs acts by auto
  qed
qed


lemma sample_reliable_run:
  "orchestrate (sample_collaborators\<lparr>generation := (\<lambda>r p. completes [''ok''])\<rparr>)
     sample_session sample_request =
     Inr [Emit (round_start 1), Fetch ''hi'' 3 100, Assemble coach_role ''a'' 1 (Some clash),
          Emit (coach_start ''a'' ''Ann'' None), Emit (content ''a'' ''ok''), Emit (coach_end ''a''),
          Fetch ''hi'' 3 100, Assemble coach_role ''b'' 1 (Some clash),
          Emit (coach_start ''b'' ''Bob'' None), Emit (content ''b'' ''ok''), Emit (coach_end ''b''),
          Emit (round_end 1), Emit (round_start 2),
          Fetch ''hi'' 3 100, Assemble coach_role ''a'' 2 (Some clash),
          Emit (coach_start ''a'' ''Ann'' None), Emit (content ''a'' ''ok''), Emit (coach_end ''a''),
          Fetch ''hi'' 3 100, Assemble coach_role ''b'' 2 (Some clash),
          Emit (coach_start ''b'' ''Bob'' None), Emit (content ''b'' ''ok''), Emit (coach_end ''b''),
          Emit (round_end 2), Emit done_ev]"
  by code_simp

theorem knowledge_call_before_each_coach_turn_witness:
  "rq_kb_timing sample_request = kb_coach
   \<and> (\<exists>acts. orchestrate (sample_collaborators\<lparr>generation := (\<lambda>r p. completes [''ok''])\<rparr>)
                sample_session sample_request = Inr acts
            \<and> knowledge_calls acts = coach_turns_started acts
            \<and> fetch_before_each_coach_turn acts
            \<and> rounds_run acts = 2
            \<and> knowledge_calls acts = 2 * rounds_run acts)"
proof -
  let ?E = "sample_collaborators\<lparr>generation := (\<lambda>r p. completes [''ok''])\<rparr>"
  have kb: "rq_kb_timing sample_request = kb_coach"
    by (simp add: sample_request_def chatRequest_def effectiveKbTiming_def sample_state_def)
  have nf: "\<forall>r p. \<not> turn_failed (generation ?E r p)"
    by simp
  have ro: "rs_coaches sample_session
            = Some [\<lparr>cb_id = ''a'', cb_name = ''Ann'', cb_avatar_url = None\<rparr>,
                    \<lparr>cb_id = ''b'', cb_name = ''Bob'', cb_avatar_url = None\<rparr>]"
    by (simp add: sample_session_def)
  from sample_reliable_run obtain acts where
    run: "orchestrate ?E sample_session sample_request = Inr acts"
    and calls: "knowledge_calls acts = 4" and rounds: "rounds_run acts = 2"
    by (simp add: knowledge_calls_def rounds_run_def)
  from knowledge_call_before_each_coach_turn
         [where rq = sample_request and E = ?E and sess = sample_session and acts = acts
            and roster = "[\<lparr>cb_id = ''a'', cb_name = ''Ann'', cb_avatar_url = None\<rparr>,
                           \<lparr>cb_id = ''b'', cb_name = ''Bob'', cb_avatar_url = None\<rparr>]"]
       kb run nf ro
  have "knowledge_calls acts = coach_turns_started acts \<and> fetch_before_each_coach_turn acts
        \<and> knowledge_calls acts = 2 * rounds_run acts"
    by simp
  with kb run rounds show ?thesis
    by blast
qed

lemma emitted_moderated_exchange:
  "emitted (moderated_exchange E rq cs md) =
     round_start 1 # concat (map (\<lambda>c. coach_turn_executor c (generation E 1 (cb_id c))) cs)
       @ (if survivors E 1 cs = [] then [error None (fatal_message E)]
          else round_end 1 # moderator_turn_executor md (moderator_message_type E) (moderation E)
                 @ [done_ev])"
  by (simp add: moderated_exchange_def emitted_append emitted_fetch_actions emitted_round_turns
        emitted_map_Emit)

lemma round_starts_round:
  "filter is_round_start (concat (map (\<lambda>c. coach_turn_executor c (generation E r (cb_id c))) cs)) = []"
  by (induction cs) (simp_all add: round_starts_executor)

lemma round_starts_moderator:
  "filter is_round_start (moderator_turn_executor md t out) = []"
  by (cases out) (auto simp: filter_empty_conv)

lemma rounds_run_moderated: "rounds_run (moderated_exchange E rq cs md) = 1"
  by (simp add: rounds_run_def emitted_moderated_exchange round_starts_round round_starts_moderator)

lemma survivors_nonempty:
  "survivors E r cs \<noteq> [] \<longleftrightarrow> (\<exists>c \<in> set cs. \<not> turn_failed (generation E r (cb_id c)))"
  by (simp add: survivors_def filter_empty_conv)

lemma moderated_run:
  "rs_discussion_mode sess = moderated \<and> orchestrate E sess rq = Inr acts \<longrightarrow>
     rounds_run acts = 1
     \<and> (\<exists>cs md. rs_coaches sess = Some cs \<and> rs_moderator sess = Some md
          \<and> ((\<exists>c \<in> set cs. \<not> turn_failed (generation E 1 (cb_id c)))
             \<longrightarrow> (\<forall>frags. moderation E = completes frags \<longrightarrow>
                   emitted acts =
                     round_start 1
                       # concat (map (\<lambda>c. coach_turn_executor c (generation E 1 (cb_id c))) cs)
                       @ [round_end 1]
                       @ moderator_start (cb_id md) (cb_name md) (cb_avatar_url md)
                           (moderator_message_type E)
                         # map (content (cb_id md)) frags
                       @ [moderator_end (cb_id md) (moderator_message_type E), done_ev])))"
proof (intro impI, elim conjE)
  assume m: "rs_discussion_mode sess = moderated" and run: "orchestrate E sess rq = Inr acts"
  from run m obtain cs md where cs: "rs_coaches sess = Some cs" and md: "rs_moderator sess = Some md"
    and acts: "acts = fetch_actions rq before_round_one @ moderated_exchange E rq cs md"
    by (auto simp: orchestrate_def Let_def split: option.splits if_splits)
  have em: "emitted acts = emitted (moderated_exchange E rq cs md)"
    by (simp add: acts emitted_append emitted_fetch_actions)
  have one: "rounds_run acts = 1"
    using rounds_run_moderated [of E rq cs md] by (simp add: rounds_run_def em)
  have seq: "emitted acts =
                     round_start 1
                       # concat (map (\<lambda>c. coach_turn_executor c (generation E 1 (cb_id c))) cs)
                       @ [round_end 1]
                       @ moderator_start (cb_id md) (cb_name md) (cb_avatar_url md)
                           (moderator_message_type E)
                         # map (content (cb_id md)) frags
                       @ [moderator_end (cb_id md) (moderator_message_type E), done_ev]"
    if "\<exists>c \<in> set cs. \<not> turn_failed (generation E 1 (cb_id c))" and "moderation E = completes frags"
    for frags
    using that survivors_nonempty [of E 1 cs]
    by (simp add: em emitted_moderated_exchange)
  from one cs md seq show "rounds_run acts = 1
     \<and> (\<exists>cs md. rs_coaches sess = Some cs \<and> rs_moderator sess = Some md
          \<and> ((\<exists>c \<in> set cs. \<not> turn_failed (generation E 1 (cb_id c)))
             \<longrightarrow> (\<forall>frags. moderation E = completes frags \<longrightarrow>
                   emitted acts =
                     round_start 1
                       # concat (map (\<lambda>c. coach_turn_executor c (generation E 1 (cb_id c))) cs)
                       @ [round_end 1]
                       @ moderator_start (cb_id md) (cb_name md) (cb_avatar_url md)
                           (moderator_message_type E)
                         # map (content (cb_id md)) frags
                       @ [moderator_end (cb_id md) (moderator_message_type E), done_ev])))"
    by blast
qed

text \<open>
  Claim C3, as the orchestrator has it. A moderated exchange runs exactly one coach round,
  whatever the request asks for and whatever fails. When at least one coach turn of the
  round and the moderator's turn complete, the events are \<open>round_start 1\<close>, the coach
  turns in roster order, \<open>round_end 1\<close>, then one \<open>moderator_start\<close> with its content
  events and \<open>moderator_end\<close>, then \<open>done\<close>, and nothing else. On the client, the
  round count of a moderated session starts at one and is reset to one by the effect of
  the session, so that a request built then asks for one round.
\<close>

theorem moderated_one_round_then_moderator:
  "(rs_discussion_mode sess = moderated \<and> orchestrate E sess rq = Inr acts \<longrightarrow>
     rounds_run acts = 1
     \<and> (\<exists>cs md. rs_coaches sess = Some cs \<and> rs_moderator sess = Some md
          \<and> ((\<exists>c \<in> set cs. \<not> turn_failed (generation E 1 (cb_id c)))
             \<longrightarrow> (\<forall>frags. moderation E = completes frags \<longrightarrow>
                   emitted acts =
                     round_start 1
                       # concat (map (\<lambda>c. coach_turn_executor c (generation E 1 (cb_id c))) cs)
                       @ [round_end 1]
                       @ moderator_start (cb_id md) (cb_name md) (cb_avatar_url md)
                           (moderator_message_type E)
                         # map (content (cb_id md)) frags
                       @ [moderator_end (cb_id md) (moderator_message_type E), done_ev]))))
   \<and> (rs_discussion_mode (session props) = moderated \<longrightarrow>
        maxRounds (initial_state props msgs) = 1
        \<and> rq_max_rounds (chatRequest props (session_effects props st) c a) = 1)"
  using moderated_run [of sess E rq acts]
  by (simp add: initial_state_def session_effects_def chatRequest_def)

lemma sample_moderated_failed_run:
  "map_sum id emitted (orchestrate sample_collaborators sample_moderated_session sample_request)
   = Inr [round_start 1, coach_start ''a'' ''Ann'' None, content ''a'' ''x'',
          error (Some ''a'') ''timeout'', error None ''all failed'']"
  by code_simp

text \<open>
  A moderated exchange whose only coach fails: the scoped error is followed by the error
  that ends the exchange; there is no \<open>round_end\<close>, no moderator turn and no \<open>done\<close>.
\<close>

theorem moderated_exchange_all_coaches_fail:
  "rs_discussion_mode sample_moderated_session = moderated
   \<and> map_sum id emitted (orchestrate sample_collaborators sample_moderated_session sample_request)
     = Inr [round_start 1, coach_start ''a'' ''Ann'' None, content ''a'' ''x'',
            error (Some ''a'') ''timeout'', error None ''all failed'']"
  using sample_moderated_failed_run by (simp add: sample_moderated_session_def)

lemma sample_moderated_run:
  "orchestrate (sample_collaborators\<lparr>generation := (\<lambda>r p. completes [''ok''])\<rparr>)
     sample_moderated_session sample_request
   = Inr [Emit (round_start 1), Fetch ''hi'' 3 100, Assemble coach_role ''a'' 1 None,
          Emit (coach_start ''a'' ''Ann'' None), Emit (content ''a'' ''ok''), Emit (coach_end ''a''),
          Emit (round_end 1), Assemble moderator_role ''m'' 1 None,
          Emit (moderator_start ''m'' ''Mod'' None ''summary''), Emit (content ''m'' ''sum''),
          Emit (moderator_end ''m'' ''summary''), Emit done_ev]"
  by code_simp

theorem moderated_one_round_then_moderator_witness:
  "rs_discussion_mode sample_moderated_session = moderated
   \<and> (\<exists>acts. orchestrate (sample_collaborators\<lparr>generation := (\<lambda>r p. completes [''ok''])\<rparr>)
                sample_moderated_session sample_request = Inr acts
            \<and> rounds_run acts = 1
            \<and> emitted acts =
                [round_start 1, coach_start ''a'' ''Ann'' None, content ''a'' ''ok'', coach_end ''a'',
                 round_end 1, moderator_start ''m'' ''Mod'' None ''summary'', content ''m'' ''sum'',
                 moderator_end ''m'' ''summary'', done_ev])
   \<and> maxRounds (initial_state (sample_props\<lparr>session := sample_moderated_session\<rparr>) []) = 1"
proof -
  let ?E = "sample_collaborators\<lparr>generation := (\<lambda>r p. completes [''ok''])\<rparr>"
  have m: "rs_discussion_mode sample_moderated_session = moderated"
    by (simp add: sample_moderated_session_def)
  from sample_moderated_run obtain acts where
    run: "orchestrate ?E sample_moderated_session sample_request = Inr acts"
    by blast
  have cs: "rs_coaches sample_moderated_session = Some [\<lparr>cb_id = ''a'', cb_name = ''Ann'', cb_avatar_url = None\<rparr>]"
    and md: "rs_moderator sample_moderated_session = Some \<lparr>cb_id = ''m'', cb_name = ''Mod'', cb_avatar_url = None\<rparr>"
    by (simp_all add: sample_moderated_session_def)
  have mo: "moderation ?E = completes [''sum'']" and mt: "moderator_message_type ?E = ''summary''"
    by (simp_all add: sample_collaborators_def)
  from moderated_one_round_then_moderator
         [where sess = sample_moderated_session and E = ?E and rq = sample_request and acts = acts
            and props = "sample_props\<lparr>session := sample_moderated_session\<rparr>" and msgs = "[]"]
       m run cs md mo mt
  have "maxRounds (initial_state (sample_props\<lparr>session := sample_moderated_session\<rparr>) []) = 1
        \<and> rounds_run acts = 1 \<and> emitted acts =
                [round_start 1, coach_start ''a'' ''Ann'' None, content ''a'' ''ok'', coach_end ''a'',
                 round_end 1, moderator_start ''m'' ''Mod'' None ''summary'', content ''m'' ''sum'',
                 moderator_end ''m'' ''summary'', done_ev]"
    by simp
  with m run show ?thesis by blast
qed

lemma emitted_free_rounds_Suc:
  "emitted (free_rounds E rq (Suc n) r active) =
     round_start r # round_events E r active
       @ (if survivors E r active = [] then [error None (fatal_message E)]
          else round_end r # emitted (free_rounds E rq n (Suc r) (survivors E r active)))"
  by (simp add: emitted_append emitted_fetch_actions emitted_round_turns round_events_def)

lemma round_events_Nil: "round_events E r [] = []"
  by (simp add: round_events_def)

lemma round_events_Cons:
  "round_events E r (c # cs) = coach_turn_executor c (generation E r (cb_id c)) @ round_events E r cs"
  by (simp add: round_events_def)

lemma executor_error:
  "error q m \<in> set (coach_turn_executor c out) \<Longrightarrow> q = Some (cb_id c) \<and> turn_failed out"
  by (cases out) auto

lemma executor_start:
  "ev \<in> set (coach_turn_executor c out) \<Longrightarrow> starts_turn_of p ev \<Longrightarrow> p = cb_id c"
  by (cases out) auto

lemma round_events_error:
  "error q m \<in> set (round_events E r active)
   \<Longrightarrow> \<exists>c \<in> set active. q = Some (cb_id c) \<and> turn_failed (generation E r (cb_id c))"
  by (induction active) (auto simp: round_events_Nil round_events_Cons dest: executor_error)

lemma round_events_start:
  "ev \<in> set (round_events E r active) \<Longrightarrow> starts_turn_of p ev \<Longrightarrow> p \<in> cb_id ` set active"
  by (induction active) (auto simp: round_events_Nil round_events_Cons dest: executor_start)

lemma round_events_no_done: "done_ev \<notin> set (round_events E r active)"
proof (induction active)
  case Nil
  show ?case by (simp add: round_events_def)
next
  case (Cons c cs)
  have "done_ev \<notin> set (coach_turn_executor c out)" for out
    by (cases out) auto
  with Cons show ?case by (simp add: round_events_Cons)
qed

lemma survivors_subset: "set (survivors E r active) \<subseteq> set active"
  by (auto simp: survivors_def)

lemma free_rounds_start:
  "ev \<in> set (emitted (free_rounds E rq n r active)) \<Longrightarrow> starts_turn_of p ev
   \<Longrightarrow> p \<in> cb_id ` set (active)"
proof (induction n arbitrary: r active)
  case 0
  then show ?case by auto
next
  case (Suc n)
  from Suc.prems(1) consider "ev = round_start r" | "ev \<in> set (round_events E r active)"
    | "ev = error None (fatal_message E)" | "ev = round_end r"
    | "ev \<in> set (emitted (free_rounds E rq n (Suc r) (survivors E r active)))"
    by (auto simp: emitted_free_rounds_Suc simp del: free_rounds.simps split: if_splits)
  then show ?case
  proof cases
    case 2
    from round_events_start [OF 2 Suc.prems(2)] show ?thesis .
  next
    case 5
    from Suc.IH [OF 5 Suc.prems(2)] survivors_subset [of E r active] show ?thesis by auto
  qed (use Suc.prems(2) in auto)
qed

lemma excluded_append:
  "excluded_after_failure (xs @ ys) \<longleftrightarrow>
     excluded_after_failure xs \<and> excluded_after_failure ys
     \<and> (\<forall>p m. error (Some p) m \<in> set xs \<longrightarrow> list_all (\<lambda>ev. \<not> starts_turn_of p ev) ys)"
  by (induction xs rule: excluded_after_failure.induct) auto

lemma excluded_executor: "excluded_after_failure (coach_turn_executor c out)"
proof -
  have "excluded_after_failure (map (content i) frags @ evs) = excluded_after_failure evs" for i frags evs
    by (induction frags) auto
  then show ?thesis by (cases out) auto
qed

lemma excluded_round_events:
  "distinct (map cb_id active) \<Longrightarrow> excluded_after_failure (round_events E r active)"
proof (induction active)
  case Nil
  show ?case by (simp add: round_events_def)
next
  case (Cons c cs)
  have "list_all (\<lambda>ev. \<not> starts_turn_of p ev) (round_events E r cs)"
    if "error (Some p) m \<in> set (coach_turn_executor c (generation E r (cb_id c)))" for p m
  proof -
    from executor_error [OF that] have "p = cb_id c" by simp
    with Cons.prems have "p \<notin> cb_id ` set cs" by simp
    then show ?thesis
      by (auto simp: list_all_iff dest: round_events_start)
  qed
  with Cons show ?case
    by (simp add: round_events_Cons excluded_append excluded_executor)
qed

lemma excluded_free_rounds:
  "distinct (map cb_id active) \<Longrightarrow> excluded_after_failure (emitted (free_rounds E rq n r active))"
proof (induction n arbitrary: r active)
  case 0
  show ?case by simp
next
  case (Suc n)
  let ?s = "survivors E r active"
  have d: "distinct (map cb_id ?s)"
    using Suc.prems by (simp add: survivors_def distinct_map_filter)
  have cross: "list_all (\<lambda>ev. \<not> starts_turn_of p ev) (emitted (free_rounds E rq n (Suc r) ?s))"
    if "error (Some p) m \<in> set (round_events E r active)" for p m
  proof -
    from round_events_error [OF that] have f: "turn_failed (generation E r p)" by auto
    have "p \<notin> cb_id ` set ?s"
      using f by (auto simp: survivors_def)
    then show ?thesis
      by (auto simp: list_all_iff dest: free_rounds_start)
  qed
  show ?case
    using Suc.IH [OF d] excluded_round_events [OF Suc.prems] cross
    by (auto simp add: emitted_free_rounds_Suc excluded_append simp del: free_rounds.simps)
qed

lemma excluded_split:
  "excluded_after_failure evs \<Longrightarrow> evs = pre @ error (Some p) m # post
   \<Longrightarrow> list_all (\<lambda>ev. \<not> starts_turn_of p ev) post"
  by (simp add: excluded_append)


lemma some_turn_completes_0:
  "some_turn_completes E r active 0 \<longleftrightarrow> survivors E r active \<noteq> []"
  by (simp add: some_turn_completes_def survivors_nonempty)

lemma some_turn_completes_Suc:
  "some_turn_completes E r active (Suc k) = some_turn_completes E (Suc r) (survivors E r active) k"
  by (simp add: some_turn_completes_def)

lemma emitted_free_rounds_nonempty: "emitted (free_rounds E rq n r active) \<noteq> []"
  by (cases n) (simp_all add: emitted_free_rounds_Suc del: free_rounds.simps(2))

lemma round_events_no_fatal: "error None m \<notin> set (round_events E r active)"
  using round_events_error [of None m E r active] by auto

lemma free_rounds_done:
  "\<forall>k < n. some_turn_completes E r active k
   \<Longrightarrow> last (emitted (free_rounds E rq n r active)) = done_ev
       \<and> (\<forall>m. error None m \<notin> set (emitted (free_rounds E rq n r active)))"
proof (induction n arbitrary: r active)
  case 0
  show ?case by simp
next
  case (Suc n)
  from Suc.prems have s: "survivors E r active \<noteq> []"
    by (simp add: some_turn_completes_0 [symmetric])
  have "\<forall>k < n. some_turn_completes E (Suc r) (survivors E r active) k"
    using Suc.prems by (auto simp: some_turn_completes_Suc [symmetric])
  from Suc.IH [OF this] s show ?case
    by (simp add: emitted_free_rounds_Suc emitted_free_rounds_nonempty round_events_no_fatal
          del: free_rounds.simps)
qed

lemma free_rounds_turn_run:
  "k < n \<Longrightarrow> \<forall>j < k. some_turn_completes E r active j \<Longrightarrow> c \<in> set (active_in E r active k)
   \<Longrightarrow> set (coach_turn_executor c (generation E (r + k) (cb_id c)))
         \<subseteq> set (emitted (free_rounds E rq n r active))"
proof (induction n arbitrary: r active k)
  case 0
  then show ?case by simp
next
  case (Suc n)
  show ?case
  proof (cases k)
    case 0
    with Suc.prems(3) have "c \<in> set active" by simp
    then have "set (coach_turn_executor c (generation E r (cb_id c))) \<subseteq> set (round_events E r active)"
      by (auto simp: round_events_def)
    with 0 show ?thesis
      by (auto simp: emitted_free_rounds_Suc simp del: free_rounds.simps)
  next
    case (Suc k')
    from Suc.prems(2) Suc have s: "survivors E r active \<noteq> []"
      by (auto simp: some_turn_completes_0 [symmetric])
    have r: "\<forall>j < k'. some_turn_completes E (Suc r) (survivors E r active) j"
      using Suc.prems(2) Suc by (auto simp: some_turn_completes_Suc [symmetric])
    have c: "c \<in> set (active_in E (Suc r) (survivors E r active) k')"
      using Suc.prems(3) Suc by simp
    from Suc.prems(1) Suc have "k' < n" by simp
    from Suc.IH [OF this r c] s Suc show ?thesis
      by (auto simp: emitted_free_rounds_Suc simp del: free_rounds.simps)
  qed
qed

lemma executor_events:
  "coach_start (cb_id c) (cb_name c) (cb_avatar_url c) \<in> set (coach_turn_executor c out)"
  "out = fails frs m \<Longrightarrow> error (Some (cb_id c)) m \<in> set (coach_turn_executor c out)"
  by (cases out; simp)+

lemma failed_not_next:
  "distinct (map cb_id active) \<Longrightarrow> c \<in> set (active_in E r active k)
   \<Longrightarrow> turn_failed (generation E (r + k) (cb_id c))
   \<Longrightarrow> c \<notin> set (active_in E r active (Suc k))"
proof (induction k arbitrary: r active)
  case 0
  then show ?case by (simp add: survivors_def)
next
  case (Suc k)
  have d: "distinct (map cb_id (survivors E r active))"
    using Suc.prems(1) by (simp add: survivors_def distinct_map_filter)
  from Suc.IH [OF d, of "Suc r"] Suc.prems(2,3) show ?case by simp
qed


text \<open>
  Claim C4. In a free exchange with a roster of distinct coach ids, every participant of
  the active roster of a round that is reached gets its turn; when that turn fails, an
  error scoped to the participant is emitted and the participant is not in the roster of
  the next round; after an error scoped to a participant no coach turn of that participant
  starts again. When in every round of the budget some participant completes its turn,
  the exchange ends with \<open>done\<close> and no error without coach id is emitted; such an error
  is emitted only when every participant of the active roster of some round fails.
\<close>

theorem failed_participant_is_excluded:
  "rs_discussion_mode sess = free \<and> orchestrate E sess rq = Inr acts
   \<and> rs_coaches sess = Some cs \<and> distinct (map cb_id cs) \<longrightarrow>
     (\<forall>k c. k < round_budget E rq \<and> (\<forall>j < k. some_turn_completes E 1 cs j)
            \<and> c \<in> set (active_in E 1 cs k) \<longrightarrow>
        coach_start (cb_id c) (cb_name c) (cb_avatar_url c) \<in> set (emitted acts)
        \<and> (\<forall>frs m. generation E (1 + k) (cb_id c) = fails frs m \<longrightarrow>
              error (Some (cb_id c)) m \<in> set (emitted acts)
              \<and> c \<notin> set (active_in E 1 cs (Suc k))))
     \<and> (\<forall>pre p m post. emitted acts = pre @ error (Some p) m # post \<longrightarrow>
           list_all (\<lambda>ev. \<not> starts_turn_of p ev) post)
     \<and> ((\<forall>k < round_budget E rq. some_turn_completes E 1 cs k) \<longrightarrow>
           last (emitted acts) = done_ev \<and> (\<forall>m. error None m \<notin> set (emitted acts)))
     \<and> (\<forall>m. error None m \<in> set (emitted acts) \<longrightarrow>
           (\<exists>k < round_budget E rq.
              \<forall>c \<in> set (active_in E 1 cs k). turn_failed (generation E (1 + k) (cb_id c))))"
proof (intro impI, elim conjE)
  assume f: "rs_discussion_mode sess = free" and run: "orchestrate E sess rq = Inr acts"
    and cs: "rs_coaches sess = Some cs" and d: "distinct (map cb_id cs)"
  let ?n = "round_budget E rq"
  from run f cs have acts: "acts = fetch_actions rq before_round_one @ free_rounds E rq ?n 1 cs"
    by (auto simp: orchestrate_def Let_def split: if_splits)
  have em: "emitted acts = emitted (free_rounds E rq ?n 1 cs)"
    by (simp add: acts emitted_append emitted_fetch_actions)
  have turns: "coach_start (cb_id c) (cb_name c) (cb_avatar_url c) \<in> set (emitted acts)
        \<and> (\<forall>frs m. generation E (1 + k) (cb_id c) = fails frs m \<longrightarrow>
              error (Some (cb_id c)) m \<in> set (emitted acts)
              \<and> c \<notin> set (active_in E 1 cs (Suc k)))"
    if "k < ?n" and "\<forall>j < k. some_turn_completes E 1 cs j" and "c \<in> set (active_in E 1 cs k)" for k c
  proof -
    from free_rounds_turn_run [OF that, of rq]
    have sub: "set (coach_turn_executor c (generation E (1 + k) (cb_id c))) \<subseteq> set (emitted acts)"
      by (simp add: em)
    have "c \<notin> set (active_in E 1 cs (Suc k))" if "generation E (1 + k) (cb_id c) = fails frs m" for frs m
      using failed_not_next [OF d \<open>c \<in> set (active_in E 1 cs k)\<close>] that by simp
    with sub executor_events [where c = c and out = "generation E (1 + k) (cb_id c)"] show ?thesis
      by blast
  qed
  have excl: "list_all (\<lambda>ev. \<not> starts_turn_of p ev) post"
    if "emitted acts = pre @ error (Some p) m # post" for pre p m post
    using excluded_split [OF excluded_free_rounds [OF d, of E rq ?n 1]] that by (simp add: em)
  have fin: "last (emitted acts) = done_ev \<and> (\<forall>m. error None m \<notin> set (emitted acts))"
    if "\<forall>k < ?n. some_turn_completes E 1 cs k"
    using free_rounds_done [OF that, of rq] by (simp add: em)
  have fatal: "\<exists>k < ?n. \<forall>c \<in> set (active_in E 1 cs k). turn_failed (generation E (1 + k) (cb_id c))"
    if "error None m \<in> set (emitted acts)" for m
  proof (rule ccontr)
    assume "\<not> (\<exists>k < ?n. \<forall>c \<in> set (active_in E 1 cs k). turn_failed (generation E (1 + k) (cb_id c)))"
    then have "\<forall>k < ?n. some_turn_completes E 1 cs k"
      by (auto simp: some_turn_completes_def)
    from fin [OF this] that show False by blast
  qed
  from turns excl fin fatal
  show "(\<forall>k c. k < round_budget E rq \<and> (\<forall>j < k. some_turn_completes E 1 cs j)
            \<and> c \<in> set (active_in E 1 cs k) \<longrightarrow>
        coach_start (cb_id c) (cb_name c) (cb_avatar_url c) \<in> set (emitted acts)
        \<and> (\<forall>frs m. generation E (1 + k) (cb_id c) = fails frs m \<longrightarrow>
              error (Some (cb_id c)) m \<in> set (emitted acts)
              \<and> c \<notin> set (active_in E 1 cs (Suc k))))
     \<and> (\<forall>pre p m post. emitted acts = pre @ error (Some p) m # post \<longrightarrow>
           list_all (\<lambda>ev. \<not> starts_turn_of p ev) post)
     \<and> ((\<forall>k < round_budget E rq. some_turn_completes E 1 cs k) \<longrightarrow>
           last (emitted acts) = done_ev \<and> (\<forall>m. error None m \<notin> set (emitted acts)))
     \<and> (\<forall>m. error None m \<in> set (emitted acts) \<longrightarrow>
           (\<exists>k < round_budget E rq.
              \<forall>c \<in> set (active_in E 1 cs k). turn_failed (generation E (1 + k) (cb_id c))))"
    by blast
qed


theorem failed_participant_is_excluded_witness:
  "rs_discussion_mode sample_session = free
   \<and> distinct (map cb_id [\<lparr>cb_id = ''a'', cb_name = ''Ann'', cb_avatar_url = None\<rparr>,
                           \<lparr>cb_id = ''b'', cb_name = ''Bob'', cb_avatar_url = None\<rparr>])
   \<and> round_budget sample_collaborators sample_request = 2
   \<and> generation sample_collaborators 1 ''a'' = fails [''x''] ''timeout''
   \<and> (\<exists>acts. orchestrate sample_collaborators sample_session sample_request = Inr acts
         \<and> error (Some ''a'') ''timeout'' \<in> set (emitted acts)
         \<and> \<lparr>cb_id = ''a'', cb_name = ''Ann'', cb_avatar_url = None\<rparr>
             \<notin> set (active_in sample_collaborators 1
                      [\<lparr>cb_id = ''a'', cb_name = ''Ann'', cb_avatar_url = None\<rparr>,
                       \<lparr>cb_id = ''b'', cb_name = ''Bob'', cb_avatar_url = None\<rparr>] (Suc 0))
         \<and> list_all (\<lambda>ev. \<not> starts_turn_of ''a'' ev) (drop 4 (emitted acts))
         \<and> last (emitted acts) = done_ev)"
proof -
  let ?a = "\<lparr>cb_id = ''a'', cb_name = ''Ann'', cb_avatar_url = None\<rparr>"
  let ?b = "\<lparr>cb_id = ''b'', cb_name = ''Bob'', cb_avatar_url = None\<rparr>"
  have f: "rs_discussion_mode sample_session = free" and cs: "rs_coaches sample_session = Some [?a, ?b]"
    by (simp_all add: sample_session_def)
  have d: "distinct (map cb_id [?a, ?b])" by simp
  have n: "round_budget sample_collaborators sample_request = 2"
    by (simp add: round_budget_def sample_request_def chatRequest_def sample_state_def
          sample_collaborators_def)
  have g: "generation sample_collaborators 1 ''a'' = fails [''x''] ''timeout''"
    by (simp add: sample_collaborators_def)
  have c0: "some_turn_completes sample_collaborators 1 [?a, ?b] 0"
    by (simp add: some_turn_completes_def sample_collaborators_def)
  have c1: "some_turn_completes sample_collaborators 1 [?a, ?b] 1"
    by (simp add: some_turn_completes_def survivors_def sample_collaborators_def)
  have call: "\<forall>k < 2. some_turn_completes sample_collaborators 1 [?a, ?b] k"
  proof (intro allI impI)
    fix k :: nat assume "k < 2"
    then have "k = 0 \<or> k = 1" by auto
    with c0 c1 show "some_turn_completes sample_collaborators 1 [?a, ?b] k" by auto
  qed
  from sample_free_run obtain acts where
    run: "orchestrate sample_collaborators sample_session sample_request = Inr acts"
    and ev: "emitted acts = [round_start 1, coach_start ''a'' ''Ann'' None, content ''a'' ''x'']
               @ error (Some ''a'') ''timeout'' # drop 4 (emitted acts)"
    by simp
  note inst = failed_participant_is_excluded
         [where sess = sample_session and E = sample_collaborators and rq = sample_request
            and acts = acts and cs = "[?a, ?b]", THEN mp, OF conjI [OF f conjI [OF run conjI [OF cs d]]]]
  note i1 = inst [THEN conjunct1, rule_format]
  note i2 = inst [THEN conjunct2, THEN conjunct1, rule_format]
  note i3 = inst [THEN conjunct2, THEN conjunct2, THEN conjunct1, rule_format]
  have t0: "error (Some ''a'') ''timeout'' \<in> set (emitted acts)
            \<and> ?a \<notin> set (active_in sample_collaborators 1 [?a, ?b] (Suc 0))"
    using i1 [of 0 ?a] n g by simp
  have t1: "list_all (\<lambda>ev. \<not> starts_turn_of ''a'' ev) (drop 4 (emitted acts))"
    using i2 [OF ev] .
  have t2: "last (emitted acts) = done_ev"
    using i3 n call by simp
  from f d n g run t0 t1 t2 show ?thesis by blast
qed

end
